theory Spec2Isabelle
  imports Main "HOL-Library.Sublist"
begin

section \<open>The conversation state machine (class StateManager)\<close>

text \<open>
  The state manager keeps the current state as a JavaScript string, one of the six values
  of \<open>this.states\<close>. The model keeps it a string as well, so that a call with a value
  outside the enumeration can be expressed. A context object is an association list from
  property names to values; a callback registered with \<open>subscribe\<close> or
  \<open>onTransition\<close> is opaque and is identified by a number, and every invocation of a
  callback is appended to a trace together with its arguments. \<open>Date.now()\<close> is an
  argument of \<open>setState\<close>.
\<close>

datatype js_value = VStr string | VNum nat

type_synonym js_object = "(string \<times> js_value) list"

record history_entry =
  he_state :: string
  he_timestamp :: nat
  he_context :: js_object

text \<open>A call of a subscriber: event key, callback, new state, previous state, context.\<close>

record listener_call =
  lc_event :: string
  lc_callback :: nat
  lc_newState :: string
  lc_previousState :: "string option"
  lc_context :: js_object

text \<open>A call of a transition callback: event, callback, the data object (from, to, context).\<close>

record transition_call =
  tc_event :: string
  tc_callback :: nat
  tc_from :: "string option"
  tc_to :: string
  tc_context :: js_object

text \<open>The deferred post-transition notification: delay, target state and context.\<close>

record post_timer =
  pt_delay :: nat
  pt_to :: string
  pt_context :: js_object

record StateManager =
  currentState :: string
  previousState :: "string option"
  stateHistory :: "history_entry list"
  listeners :: "(string \<times> nat list) list"
  transitionCallbacks :: "(string \<times> nat list) list"
  listenerCalls :: "listener_call list"
  transitionCalls :: "transition_call list"
  postTimers :: "post_timer list"

definition states :: "string list" where
  "states = [''idle'', ''waking'', ''listening'', ''thinking'', ''speaking'', ''error'']"

definition isValidState :: "string \<Rightarrow> bool" where
  "isValidState st = (st \<in> set states)"

definition transitionDurations :: "(string \<times> nat) list" where
  "transitionDurations =
     [(''idle'', 1000), (''waking'', 600), (''listening'', 400),
      (''thinking'', 800), (''speaking'', 500), (''error'', 300)]"

text \<open>\<open>this.transitionDurations[state] || 500\<close>: a missing entry and a zero both give 500.\<close>

definition getTransitionDuration :: "string \<Rightarrow> nat" where
  "getTransitionDuration st =
     (case map_of transitionDurations st of
        None \<Rightarrow> 500
      | Some d \<Rightarrow> if d = 0 then 500 else d)"

definition colorTransitionMs :: "(string \<times> nat) list" where
  "colorTransitionMs =
     [(''idle'', 2500), (''waking'', 600), (''listening'', 800),
      (''thinking'', 2000), (''speaking'', 1500), (''error'', 500)]"

definition getColorTransitionMs :: "string \<Rightarrow> nat" where
  "getColorTransitionMs st =
     (case map_of colorTransitionMs st of
        None \<Rightarrow> 1000
      | Some d \<Rightarrow> if d = 0 then 1000 else d)"

text \<open>\<open>{...context, k: v}\<close>: the property is replaced in place when present, else appended.\<close>

fun set_prop :: "string \<Rightarrow> js_value \<Rightarrow> js_object \<Rightarrow> js_object" where
  "set_prop k v [] = [(k, v)]"
| "set_prop k v ((k', v') # ob) =
     (if k' = k then (k, v) # ob else (k', v') # set_prop k v ob)"

definition callbacks_of :: "(string \<times> nat list) list \<Rightarrow> string \<Rightarrow> nat list" where
  "callbacks_of m ev = (case map_of m ev of None \<Rightarrow> [] | Some cs \<Rightarrow> cs)"

definition executeTransitionCallbacks ::
  "string \<Rightarrow> string option \<Rightarrow> string \<Rightarrow> js_object \<Rightarrow> StateManager \<Rightarrow> StateManager" where
  "executeTransitionCallbacks ev frm to ctx s =
     s\<lparr>transitionCalls := transitionCalls s @
          map (\<lambda>cb. \<lparr>tc_event = ev, tc_callback = cb, tc_from = frm, tc_to = to,
                      tc_context = ctx\<rparr>)
            (callbacks_of (transitionCallbacks s) ev)\<rparr>"

definition notifyListeners ::
  "string \<Rightarrow> string option \<Rightarrow> js_object \<Rightarrow> StateManager \<Rightarrow> StateManager" where
  "notifyListeners newState prev ctx s =
     (let events = [''stateChange'', ''state:'' @ newState,
                    ''from:'' @ (case prev of None \<Rightarrow> ''null'' | Some p \<Rightarrow> p)]
      in s\<lparr>listenerCalls := listenerCalls s @
            concat (map (\<lambda>ev.
              map (\<lambda>cb. \<lparr>lc_event = ev, lc_callback = cb, lc_newState = newState,
                          lc_previousState = prev, lc_context = ctx\<rparr>)
                (callbacks_of (listeners s) ev)) events)\<rparr>)"

text \<open>
  \<open>setState(newState, context)\<close> at time \<open>now\<close>. The result is the returned boolean and
  the state manager afterwards.
\<close>

definition setState ::
  "string \<Rightarrow> js_object \<Rightarrow> nat \<Rightarrow> StateManager \<Rightarrow> bool \<times> StateManager" where
  "setState newState ctx now s =
     (if \<not> isValidState newState then (False, s)
      else if currentState s = newState then (True, s)
      else
        let s1 = executeTransitionCallbacks ''preTransition''
                   (Some (currentState s)) newState ctx s;
            h = stateHistory s1 @
                  [\<lparr>he_state = currentState s1, he_timestamp = now, he_context = ctx\<rparr>];
            s2 = s1\<lparr>stateHistory := (if length h > 50 then tl h else h)\<rparr>;
            s3 = s2\<lparr>previousState := Some (currentState s2), currentState := newState\<rparr>;
            transitionDuration = getTransitionDuration newState;
            s4 = notifyListeners newState (previousState s3)
                   (set_prop ''colorTransitionMs'' (VNum (getColorTransitionMs newState))
                     (set_prop ''transitionDuration'' (VNum transitionDuration) ctx)) s3;
            s5 = s4\<lparr>postTimers := postTimers s4 @
                   [\<lparr>pt_delay = transitionDuration, pt_to = newState, pt_context = ctx\<rparr>]\<rparr>
        in (True, s5))"

definition getCurrentState :: "StateManager \<Rightarrow> string" where
  "getCurrentState s = currentState s"

text \<open>\<open>this.stateHistory.slice(-limit)\<close>; \<open>slice(-0)\<close> is \<open>slice(0)\<close>, the whole array.\<close>

definition getStateHistory :: "nat \<Rightarrow> StateManager \<Rightarrow> history_entry list" where
  "getStateHistory limit s =
     (if limit = 0 then stateHistory s
      else drop (length (stateHistory s) - limit) (stateHistory s))"

text \<open>The state manager as the constructor leaves it, with given subscriptions.\<close>

definition newStateManager ::
  "(string \<times> nat list) list \<Rightarrow> (string \<times> nat list) list \<Rightarrow> StateManager" where
  "newStateManager ls tcs =
     \<lparr>currentState = ''idle'', previousState = None, stateHistory = [],
      listeners = ls, transitionCallbacks = tcs,
      listenerCalls = [], transitionCalls = [], postTimers = []\<rparr>"

text \<open>
  \<open>getStateConfig(state = null)\<close>. The configuration objects are constants of the class, one
  for each state; the result is identified by the state whose configuration is returned.
  \<open>state || this.currentState\<close> takes the current state for \<open>null\<close> and for the empty string.
\<close>

definition getStateConfig :: "string option \<Rightarrow> StateManager \<Rightarrow> string" where
  "getStateConfig st s =
     (let targetState = (case st of None \<Rightarrow> currentState s
                         | Some t \<Rightarrow> if t = [] then currentState s else t)
      in if isValidState targetState then targetState else ''idle'')"

text \<open>\<open>reset()\<close> at time \<open>now\<close>.\<close>

definition reset :: "nat \<Rightarrow> StateManager \<Rightarrow> StateManager" where
  "reset now s = snd (setState ''idle'' [(''reason'', VStr ''reset'')] now s)"

text \<open>
  \<open>getStateDuration()\<close> at time \<open>now\<close>. \<open>Array.prototype.reverse\<close> reverses the array it is
  called on and returns that same array, so \<open>this.stateHistory\<close> is left reversed; \<open>find\<close>
  then returns the first record of the reversed array whose state is the current one. The
  result is the returned number and the state manager afterwards.
\<close>

definition getStateDuration :: "nat \<Rightarrow> StateManager \<Rightarrow> int \<times> StateManager" where
  "getStateDuration now s =
     (let s1 = s\<lparr>stateHistory := rev (stateHistory s)\<rparr>;
          currentStateEntry =
            find (\<lambda>entry. he_state entry = currentState s1) (stateHistory s1)
      in (case currentStateEntry of
            None \<Rightarrow> 0
          | Some entry \<Rightarrow> int now - int (he_timestamp entry),
          s1))"

text \<open>
  \<open>export()\<close> at time \<open>now\<close>. The properties of the object literal are evaluated in order:
  \<open>getStateHistory()\<close> (with the default limit 10) reads the history before
  \<open>getStateDuration()\<close> reverses it.
\<close>

record exported =
  ex_current :: string
  ex_previous :: "string option"
  ex_config :: string
  ex_history :: "history_entry list"
  ex_duration :: int
  ex_listeners :: "string list"

definition export :: "nat \<Rightarrow> StateManager \<Rightarrow> exported \<times> StateManager" where
  "export now s =
     (let history = getStateHistory 10 s;
          (duration, s1) = getStateDuration now s
      in (\<lparr>ex_current = currentState s, ex_previous = previousState s,
           ex_config = getStateConfig None s, ex_history = history,
           ex_duration = duration, ex_listeners = map fst (listeners s1)\<rparr>, s1))"

text \<open>
  \<open>subscribe\<close> and \<open>onTransition\<close> add a callback to the set kept for an event (a set
  keeps one copy, in insertion order), creating the set when the event has none; the
  function they return deletes the callback from that set.
\<close>

fun add_callback ::
  "string \<Rightarrow> nat \<Rightarrow> (string \<times> nat list) list \<Rightarrow> (string \<times> nat list) list" where
  "add_callback ev cb [] = [(ev, [cb])]"
| "add_callback ev cb ((e, cs) # m) =
     (if e = ev then (e, if cb \<in> set cs then cs else cs @ [cb]) # m
      else (e, cs) # add_callback ev cb m)"

fun delete_callback ::
  "string \<Rightarrow> nat \<Rightarrow> (string \<times> nat list) list \<Rightarrow> (string \<times> nat list) list" where
  "delete_callback ev cb [] = []"
| "delete_callback ev cb ((e, cs) # m) =
     (if e = ev then (e, removeAll cb cs) # m
      else (e, cs) # delete_callback ev cb m)"

definition subscribe :: "string \<Rightarrow> nat \<Rightarrow> StateManager \<Rightarrow> StateManager" where
  "subscribe ev cb s = s\<lparr>listeners := add_callback ev cb (listeners s)\<rparr>"

definition unsubscribe :: "string \<Rightarrow> nat \<Rightarrow> StateManager \<Rightarrow> StateManager" where
  "unsubscribe ev cb s = s\<lparr>listeners := delete_callback ev cb (listeners s)\<rparr>"

definition onTransition :: "string \<Rightarrow> nat \<Rightarrow> StateManager \<Rightarrow> StateManager" where
  "onTransition ev cb s =
     s\<lparr>transitionCallbacks := add_callback ev cb (transitionCallbacks s)\<rparr>"

definition offTransition :: "string \<Rightarrow> nat \<Rightarrow> StateManager \<Rightarrow> StateManager" where
  "offTransition ev cb s =
     s\<lparr>transitionCallbacks := delete_callback ev cb (transitionCallbacks s)\<rparr>"

text \<open>A sequence of \<open>setState\<close> calls, each with its context and its time.\<close>

fun setStates :: "(string \<times> js_object \<times> nat) list \<Rightarrow> StateManager \<Rightarrow> StateManager" where
  "setStates [] s = s"
| "setStates ((n, ctx, now) # cs) s = setStates cs (snd (setState n ctx now s))"

text \<open>
  A call of a method of the class that can change the object, with its arguments and, where
  the method reads the clock, its time; \<open>calls\<close> applies a sequence of them in order. The
  other methods of the class only read the object.
\<close>

datatype sm_call =
    SetState string js_object nat
  | Reset nat
  | GetStateDuration nat
  | Export nat
  | Subscribe string nat
  | Unsubscribe string nat
  | OnTransition string nat
  | OffTransition string nat

fun call :: "sm_call \<Rightarrow> StateManager \<Rightarrow> StateManager" where
  "call (SetState n ctx now) s = snd (setState n ctx now s)"
| "call (Reset now) s = reset now s"
| "call (GetStateDuration now) s = snd (getStateDuration now s)"
| "call (Export now) s = snd (export now s)"
| "call (Subscribe ev cb) s = subscribe ev cb s"
| "call (Unsubscribe ev cb) s = unsubscribe ev cb s"
| "call (OnTransition ev cb) s = onTransition ev cb s"
| "call (OffTransition ev cb) s = offTransition ev cb s"

fun calls :: "sm_call list \<Rightarrow> StateManager \<Rightarrow> StateManager" where
  "calls [] s = s"
| "calls (c # cs) s = calls cs (call c s)"

text \<open>The calls that reach \<open>getStateDuration\<close>.\<close>

fun reads_duration :: "sm_call \<Rightarrow> bool" where
  "reads_duration (GetStateDuration now) = True"
| "reads_duration (Export now) = True"
| "reads_duration c = False"

text \<open>The \<open>setState\<close> calls made by a sequence of method calls, in order.\<close>

fun setState_calls :: "sm_call list \<Rightarrow> (string \<times> js_object \<times> nat) list" where
  "setState_calls [] = []"
| "setState_calls (SetState n ctx now # cs) = (n, ctx, now) # setState_calls cs"
| "setState_calls (Reset now # cs) =
     (''idle'', [(''reason'', VStr ''reset'')], now) # setState_calls cs"
| "setState_calls (c # cs) = setState_calls cs"

text \<open>The records of the accepted transitions of a sequence of \<open>setState\<close> calls, oldest first.\<close>

fun accepted :: "(string \<times> js_object \<times> nat) list \<Rightarrow> string \<Rightarrow> history_entry list" where
  "accepted [] cur = []"
| "accepted ((n, ctx, now) # cs) cur =
     (if isValidState n \<and> n \<noteq> cur
      then \<lparr>he_state = cur, he_timestamp = now, he_context = ctx\<rparr> # accepted cs n
      else accepted cs cur)"

text \<open>The most recent fifty elements of a list whose newest element is last.\<close>

definition last50 :: "'a list \<Rightarrow> 'a list" where
  "last50 xs = drop (length xs - 50) xs"

section \<open>Transcripts: the string operations of the voice manager\<close>

text \<open>
  A transcript is a JavaScript string. The model takes its code units from the range
  0 to 255 (the Latin-1 part of Unicode), which is the type \<open>char\<close>; the library methods
  \<open>toLowerCase\<close>, \<open>replace\<close>, \<open>trim\<close>, \<open>indexOf\<close>, \<open>includes\<close> and \<open>substring\<close> are
  written out on character lists for that range.
\<close>

text \<open>
  \<open>toLowerCase\<close>: the capital letters A to Z, and the capital letters of the upper half
  (0xC0 to 0xDE without the multiplication sign 0xD7), move up by 32.
\<close>

definition lowerChar :: "char \<Rightarrow> char" where
  "lowerChar c =
     (let n = (of_char c :: nat)
      in if (65 \<le> n \<and> n \<le> 90) \<or> (192 \<le> n \<and> n \<le> 222 \<and> n \<noteq> 215)
         then char_of (n + 32) else c)"

definition toLowerCase :: "string \<Rightarrow> string" where
  "toLowerCase s = map lowerChar s"

text \<open>
  The characters matched by \<open>\s\<close> and removed by \<open>trim\<close>: tab, line feed, vertical
  tab, form feed, carriage return, space and the no-break space.
\<close>

definition isSpace :: "char \<Rightarrow> bool" where
  "isSpace c = (c \<in> set [CHR 0x09, CHR 0x0A, CHR 0x0B, CHR 0x0C, CHR 0x0D, CHR '' '', CHR 0xA0])"

text \<open>\<open>.replace(/[.,!?]/g, '')\<close>\<close>

definition isPunct :: "char \<Rightarrow> bool" where
  "isPunct c = (c \<in> set [CHR ''.'', CHR '','', CHR ''!'', CHR ''?''])"

definition removePunctuation :: "string \<Rightarrow> string" where
  "removePunctuation s = filter (\<lambda>c. \<not> isPunct c) s"

text \<open>\<open>.replace(/\s+/g, ' ')\<close>: every maximal run of white space becomes one space.\<close>

function normalizeSpaces :: "string \<Rightarrow> string" where
  "normalizeSpaces [] = []"
| "normalizeSpaces (c # cs) =
     (if isSpace c then CHR '' '' # normalizeSpaces (dropWhile isSpace cs)
      else c # normalizeSpaces cs)"
  by pat_completeness auto
termination
  by (relation "measure length") (auto simp add: length_dropWhile_le less_Suc_eq_le)

text \<open>\<open>trim\<close> removes the white space at both ends.\<close>

definition trimStart :: "string \<Rightarrow> string" where
  "trimStart s = dropWhile isSpace s"

definition trimEnd :: "string \<Rightarrow> string" where
  "trimEnd s = rev (dropWhile isSpace (rev s))"

definition trim :: "string \<Rightarrow> string" where
  "trim s = trimEnd (trimStart s)"

text \<open>\<open>s.indexOf(p)\<close>: the first position where \<open>p\<close> starts, \<open>None\<close> for \<open>-1\<close>.\<close>

fun indexOf :: "string \<Rightarrow> string \<Rightarrow> nat option" where
  "indexOf [] p = (if p = [] then Some 0 else None)"
| "indexOf (x # xs) p =
     (if prefix p (x # xs) then Some 0 else map_option Suc (indexOf xs p))"

definition includes_str :: "string \<Rightarrow> string \<Rightarrow> bool" where
  "includes_str s p = (indexOf s p \<noteq> None)"

text \<open>\<open>s.substring(i)\<close> with \<open>i\<close> not negative.\<close>

definition substring :: "string \<Rightarrow> nat \<Rightarrow> string" where
  "substring s i = drop i s"

definition wakeWord :: string where
  "wakeWord = ''hey luna''"

definition alternativeWakeWords :: "string list" where
  "alternativeWakeWords = [''luna'', ''hey luna'', ''ok luna'', ''luda'', ''hey luda'', ''ok luda'']"

definition allWakeWords :: "string list" where
  "allWakeWords = wakeWord # alternativeWakeWords"

text \<open>The cleaning both functions start with.\<close>

definition cleanTranscript :: "string \<Rightarrow> string" where
  "cleanTranscript transcript = trim (normalizeSpaces (removePunctuation (toLowerCase transcript)))"

definition cleanWakeWord :: "string \<Rightarrow> string" where
  "cleanWakeWord w = trim (normalizeSpaces (toLowerCase w))"

text \<open>The loop of \<open>detectWakeWord\<close> over the wake words, on the cleaned transcript.\<close>

fun detectLoop :: "string list \<Rightarrow> string \<Rightarrow> bool" where
  "detectLoop [] cleaned = False"
| "detectLoop (w # ws) cleaned =
     (if includes_str cleaned (cleanWakeWord w) then True else detectLoop ws cleaned)"

definition detectWakeWord :: "string \<Rightarrow> bool" where
  "detectWakeWord transcript = detectLoop allWakeWords (cleanTranscript transcript)"

text \<open>
  The loop of \<open>extractCommandFromTranscript\<close>: the first wake word of the list that
  occurs cuts the command after its first occurrence, and the loop ends there.
\<close>

fun extractLoop :: "string list \<Rightarrow> string \<Rightarrow> string" where
  "extractLoop [] command = command"
| "extractLoop (w # ws) command =
     (case indexOf command (cleanWakeWord w) of
        Some wakeWordIndex \<Rightarrow>
          trim (substring command (wakeWordIndex + length (cleanWakeWord w)))
      | None \<Rightarrow> extractLoop ws command)"

definition extractCommandFromTranscript :: "string \<Rightarrow> string" where
  "extractCommandFromTranscript transcript =
     extractLoop allWakeWords (cleanTranscript transcript)"

section \<open>The recognition supervisor and the conversation logic (class VoiceManager)\<close>

text \<open>
  The page runs one thread: every handler runs to its next \<open>await\<close> without
  interruption. A session is the state between two handlers: the fields of the voice
  manager, the state manager \<open>window.AppState\<close>, the pending timers of the event loop,
  the utterances handed to the speech synthesis and counters of the calls made to the
  recognizer. An \<open>await this.delay(ms)\<close> ends a handler and leaves a timer whose callback
  is the rest of the function. What the platform decides is an input: whether the
  microphone is granted and what \<open>recognition.start()\<close> does. The microphone request is
  taken to resolve before any other event is handled, and the audio frames of the local
  volume detector are not part of the model.
\<close>

datatype start_result = Started | ThrewAlreadyStarted | ThrewOther

record start_env =
  micPermission :: bool
  startResult :: start_result

text \<open>What continues when a \<open>speak\<close> promise resolves.\<close>

datatype speak_waiter = NoWaiter | AfterCommandSpeak | AfterLateSpeak

text \<open>What continues after the delay inside \<open>forceRestartRecognition\<close>.\<close>

datatype force_caller = FromStateSync | FromPostTts

datatype timer_callback =
    RestartCb
  | ListeningTimeoutCb
  | ConversationTimeoutCb
  | ConversationIdleCb
  | InterruptResumeCb
  | ForceRestartResumeCb force_caller
  | StateSyncCb
  | CommandCb string nat
  | EnterListeningCb string
  | PostTtsCb
  | ErrorRecoveryCb

record timer =
  t_id :: nat
  t_due :: nat
  t_cb :: timer_callback

record utterance =
  ut_id :: nat
  ut_waiter :: speak_waiter
  ut_resolved :: bool
  ut_cancelled :: bool

record session =
  isListening :: bool
  isRestarting :: bool
  isPaused :: bool
  isSpeaking :: bool
  isInConversation :: bool
  useLocalDetection :: bool
  hasRecognition :: bool
  hasSynthesis :: bool
  stateListener :: bool
  consecutiveErrors :: nat
  restartAttempts :: nat
  pendingRestart :: "nat option"
  listeningTimeout :: "nat option"
  conversationTimeout :: "nat option"
  currentSpeechResolve :: "nat option"
  lastCommand :: string
  app :: StateManager
  clock :: nat
  nextTimer :: nat
  timers :: "timer list"
  utterances :: "utterance list"
  nextUtterance :: nat
  recStartCalls :: nat
  recStopCalls :: nat
  localStarts :: nat
  dispatched :: "(string \<times> nat) list"
  awaitingBackend :: "string list"
  microtasks :: "speak_waiter list"

subsection \<open>Timers\<close>

definition setTimeout :: "timer_callback \<Rightarrow> nat \<Rightarrow> session \<Rightarrow> nat \<times> session" where
  "setTimeout cb ms w =
     (nextTimer w,
      w\<lparr>timers := timers w @ [\<lparr>t_id = nextTimer w, t_due = clock w + ms, t_cb = cb\<rparr>],
        nextTimer := Suc (nextTimer w)\<rparr>)"

definition clearTimeout :: "nat \<Rightarrow> session \<Rightarrow> session" where
  "clearTimeout i w = w\<lparr>timers := filter (\<lambda>t. t_id t \<noteq> i) (timers w)\<rparr>"

text \<open>\<open>await this.delay(ms)\<close> with the rest of the function as callback.\<close>

definition delay :: "timer_callback \<Rightarrow> nat \<Rightarrow> session \<Rightarrow> session" where
  "delay cb ms w = snd (setTimeout cb ms w)"

text \<open>\<open>if (handle)\<close> on a timer handle: \<open>null\<close> and 0 are false.\<close>

definition truthy :: "nat option \<Rightarrow> bool" where
  "truthy h = (case h of None \<Rightarrow> False | Some i \<Rightarrow> i \<noteq> 0)"

definition cancelPendingRestart :: "session \<Rightarrow> session" where
  "cancelPendingRestart w =
     (case pendingRestart w of
        None \<Rightarrow> w
      | Some i \<Rightarrow> if i \<noteq> 0 then (clearTimeout i w)\<lparr>pendingRestart := None\<rparr> else w)"

subsection \<open>Restart scheduling\<close>

definition scheduleRestart :: "nat \<Rightarrow> session \<Rightarrow> session" where
  "scheduleRestart ms w =
     (let w1 = cancelPendingRestart w
      in if isPaused w1 then w1
         else
           let w2 = w1\<lparr>restartAttempts := restartAttempts w1 + 1\<rparr>;
               (i, w3) = setTimeout RestartCb ms w2
           in w3\<lparr>pendingRestart := Some i\<rparr>)"

definition initLocalDetection :: "session \<Rightarrow> session" where
  "initLocalDetection w = w\<lparr>useLocalDetection := True\<rparr>"

definition startLocalDetection :: "start_env \<Rightarrow> session \<Rightarrow> session" where
  "startLocalDetection env w =
     (if \<not> micPermission env then w
      else w\<lparr>isListening := True, localStarts := localStarts w + 1\<rparr>)"

text \<open>
  \<open>startWebSpeechDetection\<close>: \<open>Inl\<close> is the exception it rethrows, with the session at
  that point; every call of \<open>recognition.start()\<close> is counted.
\<close>

definition startWebSpeechDetection :: "start_env \<Rightarrow> session \<Rightarrow> session + session" where
  "startWebSpeechDetection env w =
     (if \<not> hasRecognition w then Inr w
      else if \<not> micPermission env then Inr w
      else
        let w1 = w\<lparr>recStartCalls := recStartCalls w + 1\<rparr>
        in case startResult env of
             Started \<Rightarrow> Inr (w1\<lparr>restartAttempts := 0\<rparr>)
           | ThrewAlreadyStarted \<Rightarrow> Inr (w1\<lparr>isListening := True\<rparr>)
           | ThrewOther \<Rightarrow> Inl w1)"

definition startWakeWordDetection :: "start_env \<Rightarrow> session \<Rightarrow> session" where
  "startWakeWordDetection env w =
     (if isPaused w then w
      else if isListening w then w
      else if isRestarting w then w
      else if useLocalDetection w then startLocalDetection env w
      else
        case startWebSpeechDetection env w of
          Inr w1 \<Rightarrow> w1
        | Inl w1 \<Rightarrow>
            let w2 = w1\<lparr>consecutiveErrors := consecutiveErrors w1 + 1\<rparr>
            in if consecutiveErrors w2 < 3
               then (if \<not> isRestarting w2 then scheduleRestart 3000 w2 else w2)
               else startLocalDetection env (initLocalDetection w2))"

text \<open>The callback of the timer set by \<open>scheduleRestart\<close>.\<close>

definition restartTimerFired :: "start_env \<Rightarrow> session \<Rightarrow> session" where
  "restartTimerFired env w =
     (let w1 = w\<lparr>pendingRestart := None, isRestarting := False\<rparr>
      in if isPaused w1 then w1
         else if isListening w1 then w1
         else startWakeWordDetection env w1)"

text \<open>\<open>forceRestartRecognition\<close> up to its delay, and the rest of it.\<close>

definition forceRestartRecognition :: "force_caller \<Rightarrow> session \<Rightarrow> session" where
  "forceRestartRecognition caller w =
     (let w1 = cancelPendingRestart w;
          w2 = w1\<lparr>isListening := False, isRestarting := False\<rparr>
      in delay (ForceRestartResumeCb caller) 100 w2)"

subsection \<open>The state manager as seen from the voice manager\<close>

text \<open>
  The subscriber registered by \<open>setupStateChangeListener\<close>, up to its first \<open>await\<close>:
  for Listening it waits 150 ms, for every other state it goes on to the Idle check.
\<close>

definition onStateChange :: "string \<Rightarrow> session \<Rightarrow> session" where
  "onStateChange newState w =
     (if newState = ''listening'' then delay StateSyncCb 150 w
      else if newState = ''idle'' \<and> isInConversation w then
        let w1 = w\<lparr>isInConversation := False\<rparr>
        in if \<not> isListening w1 \<and> \<not> isRestarting w1 \<and> \<not> isPaused w1
              \<and> \<not> useLocalDetection w1
           then scheduleRestart 200 w1 else w1
      else w)"

definition stateSyncFired :: "session \<Rightarrow> session" where
  "stateSyncFired w =
     (if \<not> isListening w \<and> \<not> isRestarting w \<and> \<not> isPaused w \<and> \<not> useLocalDetection w
      then forceRestartRecognition FromStateSync w else w)"

text \<open>\<open>window.AppState?.setState(newState, context)\<close> with its subscriber.\<close>

definition appSetState :: "string \<Rightarrow> js_object \<Rightarrow> session \<Rightarrow> session" where
  "appSetState newState ctx w =
     (let changes = (isValidState newState \<and> newState \<noteq> currentState (app w));
          w1 = w\<lparr>app := snd (setState newState ctx (clock w) (app w))\<rparr>
      in if changes \<and> stateListener w then onStateChange newState w1 else w1)"

subsection \<open>Timeouts\<close>

definition clearListeningTimeout :: "session \<Rightarrow> session" where
  "clearListeningTimeout w =
     (case listeningTimeout w of
        None \<Rightarrow> w
      | Some i \<Rightarrow> if i \<noteq> 0 then (clearTimeout i w)\<lparr>listeningTimeout := None\<rparr> else w)"

definition startListeningTimeout :: "session \<Rightarrow> session" where
  "startListeningTimeout w =
     (let (i, w1) = setTimeout ListeningTimeoutCb 8000 (clearListeningTimeout w)
      in w1\<lparr>listeningTimeout := Some i\<rparr>)"

definition clearConversationTimeout :: "session \<Rightarrow> session" where
  "clearConversationTimeout w =
     (case conversationTimeout w of
        None \<Rightarrow> w
      | Some i \<Rightarrow> if i \<noteq> 0 then (clearTimeout i w)\<lparr>conversationTimeout := None\<rparr> else w)"

definition startConversationTimeout :: "session \<Rightarrow> session" where
  "startConversationTimeout w =
     (let (i, w1) = setTimeout ConversationTimeoutCb 15000 (clearConversationTimeout w)
      in w1\<lparr>conversationTimeout := Some i\<rparr>)"

definition conversationTimeoutFired :: "session \<Rightarrow> session" where
  "conversationTimeoutFired w =
     (if currentState (app w) = ''listening'' \<and> isInConversation w then
        let w1 = w\<lparr>isInConversation := False\<rparr>;
            w2 = (if \<not> isListening w1 \<and> \<not> isRestarting w1 \<and> \<not> useLocalDetection w1
                  then scheduleRestart 100 w1 else w1)
        in delay ConversationIdleCb 50 w2
      else w)"

subsection \<open>Speech output\<close>

definition synthesisCancel :: "session \<Rightarrow> session" where
  "synthesisCancel w = w\<lparr>utterances := map (\<lambda>u. u\<lparr>ut_cancelled := True\<rparr>) (utterances w)\<rparr>"


text \<open>A \<open>speak\<close> promise that has not been resolved.\<close>

definition speechPending :: "session \<Rightarrow> bool" where
  "speechPending w = (filter (\<lambda>u. \<not> ut_resolved u) (utterances w) \<noteq> [])"

text \<open>Calling the \<open>resolve\<close> function of the promise of an utterance.\<close>

definition resolveSpeech :: "nat \<Rightarrow> session \<Rightarrow> speak_waiter option \<times> session" where
  "resolveSpeech uid w =
     (case filter (\<lambda>u. ut_id u = uid \<and> \<not> ut_resolved u) (utterances w) of
        [] \<Rightarrow> (None, w)
      | u # us \<Rightarrow>
          (Some (ut_waiter u),
           w\<lparr>utterances :=
               map (\<lambda>v. if ut_id v = uid then v\<lparr>ut_resolved := True\<rparr> else v) (utterances w)\<rparr>))"

text \<open>The rest of \<open>onCommandReceived\<close> after \<open>await this.speak(...)\<close>, up to its delay.\<close>

definition afterCommandSpeak :: "session \<Rightarrow> session" where
  "afterCommandSpeak w =
     (if isSpeaking w then
        let w1 = w\<lparr>isSpeaking := False\<rparr>;
            w2 = appSetState ''listening'' [(''source'', VStr ''conversation-continue'')] w1
        in delay PostTtsCb 200 w2
      else w\<lparr>isSpeaking := False\<rparr>)"

definition postTtsFired :: "session \<Rightarrow> session" where
  "postTtsFired w =
     (if \<not> isListening w \<and> \<not> isRestarting w \<and> \<not> useLocalDetection w
      then forceRestartRecognition FromPostTts w
      else (startConversationTimeout w)\<lparr>isSpeaking := False\<rparr>)"

definition forceRestartResumed :: "force_caller \<Rightarrow> start_env \<Rightarrow> session \<Rightarrow> session" where
  "forceRestartResumed caller env w =
     (let w1 = startWakeWordDetection env w
      in case caller of
           FromStateSync \<Rightarrow> w1
         | FromPostTts \<Rightarrow> (startConversationTimeout w1)\<lparr>isSpeaking := False\<rparr>)"

text \<open>The rest of \<open>handleLateResponse\<close> after \<open>await this.speak(...)\<close>.\<close>

definition afterLateSpeak :: "session \<Rightarrow> session" where
  "afterLateSpeak w =
     (let w1 = w\<lparr>isSpeaking := False\<rparr>
      in if isInConversation w1
         then startConversationTimeout
                (appSetState ''listening'' [(''source'', VStr ''late-response-continue'')] w1)
         else appSetState ''idle'' [(''source'', VStr ''late-response-complete'')] w1)"

definition runWaiter :: "speak_waiter option \<Rightarrow> session \<Rightarrow> session" where
  "runWaiter k w =
     (case k of
        None \<Rightarrow> w
      | Some NoWaiter \<Rightarrow> w
      | Some AfterCommandSpeak \<Rightarrow> afterCommandSpeak w
      | Some AfterLateSpeak \<Rightarrow> afterLateSpeak w)"

text \<open>
  \<open>speak(text)\<close> awaited by \<open>waiter\<close>. Without speech synthesis the promise resolves at
  once; otherwise the utterances in flight are cancelled and a new one is queued.
\<close>

definition speak :: "speak_waiter \<Rightarrow> session \<Rightarrow> session" where
  "speak waiter w =
     (if \<not> hasSynthesis w then runWaiter (Some waiter) w
      else
        let w1 = w\<lparr>currentSpeechResolve := Some (nextUtterance w)\<rparr>;
            w2 = synthesisCancel w1
        in w2\<lparr>utterances := utterances w2 @
                 [\<lparr>ut_id = nextUtterance w2, ut_waiter = waiter, ut_resolved = False,
                   ut_cancelled = False\<rparr>],
               nextUtterance := Suc (nextUtterance w2)\<rparr>)"

text \<open>The \<open>onend\<close> and \<open>onerror\<close> handlers of an utterance.\<close>

definition utteranceDone :: "nat \<Rightarrow> session \<Rightarrow> session" where
  "utteranceDone uid w =
     (if uid \<in> set (map ut_id (utterances w)) then
        let w1 = w\<lparr>currentSpeechResolve := None\<rparr>;
            (k, w2) = resolveSpeech uid w1;
            w3 = w2\<lparr>utterances := filter (\<lambda>u. ut_id u \<noteq> uid) (utterances w2)\<rparr>
        in runWaiter k w3
      else w)"

definition listeningTimeoutFired :: "session \<Rightarrow> session" where
  "listeningTimeoutFired w =
     (if currentState (app w) = ''listening''
      then appSetState ''idle'' [] (speak NoWaiter w)
      else w)"

subsection \<open>Interruption\<close>

text \<open>
  \<open>interruptSpeaking\<close> up to \<open>await this.delay(300)\<close>. Resolving the promise queues the
  code that awaits it as a microtask: it continues when the running handler has ended.
\<close>

definition interruptSpeaking :: "session \<Rightarrow> session" where
  "interruptSpeaking w =
     (let w1 = (if hasSynthesis w then synthesisCancel w else w);
          w2 = w1\<lparr>isSpeaking := False\<rparr>;
          w3 = (case currentSpeechResolve w2 of
                  None \<Rightarrow> w2
                | Some uid \<Rightarrow>
                    (let (k, w') = resolveSpeech uid w2
                     in w'\<lparr>currentSpeechResolve := None,
                           microtasks := microtasks w' @
                             (case k of None \<Rightarrow> [] | Some waiter \<Rightarrow> [waiter])\<rparr>));
          w4 = appSetState ''listening'' [(''source'', VStr ''interrupt'')] w3
      in delay InterruptResumeCb 300 w4)"

text \<open>The part of \<open>interruptSpeaking\<close> before its \<open>setState\<close>, on its own.\<close>

definition interrupted :: "session \<Rightarrow> session" where
  "interrupted w =
     (let w2 = (if hasSynthesis w then synthesisCancel w else w)\<lparr>isSpeaking := False\<rparr>
      in case currentSpeechResolve w2 of
           None \<Rightarrow> w2
         | Some uid \<Rightarrow>
             (let (k, w') = resolveSpeech uid w2
              in w'\<lparr>currentSpeechResolve := None,
                    microtasks := microtasks w' @
                      (case k of None \<Rightarrow> [] | Some waiter \<Rightarrow> [waiter])\<rparr>))"

text \<open>The microtasks run when a handler has ended.\<close>

definition drainMicrotasks :: "session \<Rightarrow> session" where
  "drainMicrotasks w =
     foldl (\<lambda>v k. runWaiter (Some k) v) (w\<lparr>microtasks := []\<rparr>) (microtasks w)"

text \<open>The rest of \<open>interruptSpeaking\<close> after the delay.\<close>

definition interruptResumed :: "start_env \<Rightarrow> session \<Rightarrow> session" where
  "interruptResumed env w =
     (let w1 = cancelPendingRestart w;
          w2 = w1\<lparr>isListening := False, isRestarting := False, isPaused := False\<rparr>;
          w3 = (if \<not> useLocalDetection w2 then startWakeWordDetection env w2 else w2)
      in startConversationTimeout w3)"

subsection \<open>Commands\<close>

text \<open>
  \<open>onCommandReceived\<close> up to \<open>await this.processCommand(transcript)\<close>; the call is
  recorded in \<open>dispatched\<close> and the command waits for its response.
\<close>

definition onCommandReceived :: "string \<Rightarrow> nat \<Rightarrow> session \<Rightarrow> session" where
  "onCommandReceived transcript confidence w =
     (let w1 = clearConversationTimeout (clearListeningTimeout w);
          w2 = w1\<lparr>isInConversation := True,
                 dispatched := dispatched w1 @ [(transcript, confidence)]\<rparr>;
          w3 = appSetState ''thinking''
                 [(''command'', VStr transcript), (''confidence'', VNum confidence)] w2
      in w3\<lparr>awaitingBackend := awaitingBackend w3 @ [transcript]\<rparr>)"

text \<open>The response of \<open>processCommand\<close> arrives for the command at position \<open>n\<close>.\<close>

definition commandResolved :: "nat \<Rightarrow> string \<Rightarrow> session \<Rightarrow> session" where
  "commandResolved n text w =
     (if n < length (awaitingBackend w) then
        let transcript = awaitingBackend w ! n;
            w1 = w\<lparr>awaitingBackend := take n (awaitingBackend w) @ drop (Suc n) (awaitingBackend w),
                   isSpeaking := True\<rparr>;
            w2 = appSetState ''speaking''
                   [(''command'', VStr transcript), (''response'', VStr text)] w1
        in speak AfterCommandSpeak w2
      else w)"

text \<open>The \<open>catch\<close> branch of \<open>onCommandReceived\<close>, up to its delay, and the rest of it.\<close>

definition commandFailed :: "nat \<Rightarrow> string \<Rightarrow> session \<Rightarrow> session" where
  "commandFailed n message w =
     (if n < length (awaitingBackend w) then
        let w1 = w\<lparr>awaitingBackend := take n (awaitingBackend w) @ drop (Suc n) (awaitingBackend w),
                   isSpeaking := False\<rparr>;
            w2 = appSetState ''error'' [(''error'', VStr message)] w1
        in delay ErrorRecoveryCb 1500 w2
      else w)"

definition errorRecoveryFired :: "session \<Rightarrow> session" where
  "errorRecoveryFired w =
     startConversationTimeout
       (appSetState ''listening'' [(''source'', VStr ''error-recovery'')] w)"

definition handleLateResponse :: "string \<Rightarrow> session \<Rightarrow> session" where
  "handleLateResponse text w =
     (if text = [] then w else speak AfterLateSpeak (w\<lparr>isSpeaking := True\<rparr>))"

subsection \<open>Recognizer events\<close>

definition onRecognitionStart :: "session \<Rightarrow> session" where
  "onRecognitionStart w = w\<lparr>isListening := True, isRestarting := False, consecutiveErrors := 0\<rparr>"

definition onRecognitionEnd :: "session \<Rightarrow> session" where
  "onRecognitionEnd w =
     (let w1 = w\<lparr>isListening := False\<rparr>;
          currentState = getCurrentState (app w1)
      in if currentState = ''speaking'' \<or> isSpeaking w1 then scheduleRestart 100 w1
         else if isPaused w1 \<or> useLocalDetection w1 then w1
         else
           let shouldRestart = (currentState \<notin> set [''error'', ''thinking''])
           in if shouldRestart
              then scheduleRestart (if currentState = ''listening'' then 100 else 500) w1
              else w1)"

definition onRecognitionError :: "string \<Rightarrow> session \<Rightarrow> session" where
  "onRecognitionError errorType w =
     (let currentState = getCurrentState (app w)
      in if currentState \<in> set [''thinking'', ''speaking''] then w
         else if errorType = ''aborted'' then w
         else
           let w1 = w\<lparr>consecutiveErrors := consecutiveErrors w + 1\<rparr>
           in if errorType = ''network'' then
                (if consecutiveErrors w1 \<ge> 2
                 then initLocalDetection (w1\<lparr>useLocalDetection := True\<rparr>)
                 else scheduleRestart 500 w1)
              else if errorType = ''no-speech''
              then scheduleRestart 100 (w1\<lparr>consecutiveErrors := 0\<rparr>)
              else scheduleRestart 500 w1)"

definition onSpeechStart :: "session \<Rightarrow> session" where
  "onSpeechStart w = w\<lparr>consecutiveErrors := 0\<rparr>"

definition onInterimResult :: "string \<Rightarrow> session \<Rightarrow> session" where
  "onInterimResult transcript w =
     (if isInConversation w \<and> length transcript > 3 then clearConversationTimeout w else w)"

definition onWakeWordDetected :: "string \<Rightarrow> session \<Rightarrow> session" where
  "onWakeWordDetected transcript w =
     (let w1 = appSetState ''waking'' [(''transcript'', VStr transcript)] w;
          command = extractCommandFromTranscript transcript
      in if length command > 2
         then delay (CommandCb command 90) 600 w1
         else delay (EnterListeningCb ''wake-word'') 600 w1)"

definition enterListeningFired :: "string \<Rightarrow> session \<Rightarrow> session" where
  "enterListeningFired source w =
     startListeningTimeout (appSetState ''listening'' [(''source'', VStr source)] w)"

text \<open>
  \<open>handleRecognitionResult\<close> for the last result of the event: its first transcript, the
  confidence in per cent and the \<open>isFinal\<close> flag.
\<close>

definition handleRecognitionResult :: "string \<Rightarrow> nat \<Rightarrow> bool \<Rightarrow> session \<Rightarrow> session" where
  "handleRecognitionResult transcript confidence isFinal w =
     (let primaryTranscript = trim (toLowerCase transcript);
          currentState = getCurrentState (app w)
      in if currentState = ''speaking'' \<or> isSpeaking w then
           (if \<not> isFinal then w
            else if detectWakeWord primaryTranscript then
              let w1 = interruptSpeaking w;
                  command = extractCommandFromTranscript primaryTranscript
              in if length command > 2
                 then delay (CommandCb command confidence) 300 w1
                 else delay (EnterListeningCb ''interruption'') 300 w1
            else w)
         else if \<not> isFinal then onInterimResult primaryTranscript w
         else
           let w1 = (if length primaryTranscript > 0 then w\<lparr>consecutiveErrors := 0\<rparr> else w);
               w2 =
                 (if currentState = ''idle'' \<and> \<not> isInConversation w1 then
                    (if detectWakeWord primaryTranscript
                     then onWakeWordDetected primaryTranscript w1 else w1)
                  else if currentState = ''waking'' then
                    (if detectWakeWord primaryTranscript
                     then onWakeWordDetected primaryTranscript w1 else w1)
                  else if currentState = ''listening'' then
                    (if length primaryTranscript > 0 then
                       let w3 = clearConversationTimeout w1
                       in if detectWakeWord primaryTranscript then
                            let command = extractCommandFromTranscript primaryTranscript
                            in if length command > 2
                               then onCommandReceived command confidence w3
                               else if isInConversation w3
                                    then startConversationTimeout w3 else w3
                          else onCommandReceived primaryTranscript confidence w3
                     else w1)
                  else w1)
           in w2\<lparr>lastCommand := primaryTranscript\<rparr>)"

subsection \<open>Calls from the page\<close>

definition stopWakeWordDetection :: "session \<Rightarrow> session" where
  "stopWakeWordDetection w =
     (let w1 = w\<lparr>isPaused := True\<rparr>;
          w2 = (if hasRecognition w1 \<and> isListening w1
                then w1\<lparr>recStopCalls := recStopCalls w1 + 1\<rparr> else w1)
      in w2\<lparr>isListening := False\<rparr>)"

definition resumeWakeWordDetection :: "start_env \<Rightarrow> session \<Rightarrow> session" where
  "resumeWakeWordDetection env w =
     (let w1 = w\<lparr>isPaused := False\<rparr>
      in if \<not> useLocalDetection w1 then startWakeWordDetection env w1 else w1)"

subsection \<open>The event loop\<close>

definition fire :: "timer_callback \<Rightarrow> start_env \<Rightarrow> session \<Rightarrow> session" where
  "fire cb env w =
     (case cb of
        RestartCb \<Rightarrow> restartTimerFired env w
      | ListeningTimeoutCb \<Rightarrow> listeningTimeoutFired w
      | ConversationTimeoutCb \<Rightarrow> conversationTimeoutFired w
      | ConversationIdleCb \<Rightarrow> appSetState ''idle'' [] w
      | InterruptResumeCb \<Rightarrow> interruptResumed env w
      | ForceRestartResumeCb caller \<Rightarrow> forceRestartResumed caller env w
      | StateSyncCb \<Rightarrow> stateSyncFired w
      | CommandCb command confidence \<Rightarrow> onCommandReceived command confidence w
      | EnterListeningCb source \<Rightarrow> enterListeningFired source w
      | PostTtsCb \<Rightarrow> postTtsFired w
      | ErrorRecoveryCb \<Rightarrow> errorRecoveryFired w)"

text \<open>A pending timer expires: it leaves the table, time has reached its due time.\<close>

definition timerFired :: "nat \<Rightarrow> start_env \<Rightarrow> session \<Rightarrow> session" where
  "timerFired i env w =
     (case filter (\<lambda>t. t_id t = i) (timers w) of
        [] \<Rightarrow> w
      | t # ts \<Rightarrow>
          fire (t_cb t) env
            (w\<lparr>timers := filter (\<lambda>t. t_id t \<noteq> i) (timers w),
               clock := max (clock w) (t_due t)\<rparr>))"

datatype event =
    RecStart
  | RecEnd
  | RecError string
  | RecSpeechStart
  | RecResult string nat bool
  | TimerFired nat start_env
  | UtteranceDone nat
  | CommandResolved nat string
  | CommandFailed nat string
  | LateResponse string
  | CallInterruptSpeaking
  | CallStopWakeWordDetection
  | CallResumeWakeWordDetection start_env
  | CallStartWakeWordDetection start_env
  | CallSetState string js_object
  | TimePasses nat

definition handle :: "event \<Rightarrow> session \<Rightarrow> session" where
  "handle e w = drainMicrotasks
     (case e of
        RecStart \<Rightarrow> onRecognitionStart w
      | RecEnd \<Rightarrow> onRecognitionEnd w
      | RecError errorType \<Rightarrow> onRecognitionError errorType w
      | RecSpeechStart \<Rightarrow> onSpeechStart w
      | RecResult transcript confidence isFinal \<Rightarrow>
          handleRecognitionResult transcript confidence isFinal w
      | TimerFired i env \<Rightarrow> timerFired i env w
      | UtteranceDone uid \<Rightarrow> utteranceDone uid w
      | CommandResolved n text \<Rightarrow> commandResolved n text w
      | CommandFailed n message \<Rightarrow> commandFailed n message w
      | LateResponse text \<Rightarrow> handleLateResponse text w
      | CallInterruptSpeaking \<Rightarrow> interruptSpeaking w
      | CallStopWakeWordDetection \<Rightarrow> stopWakeWordDetection w
      | CallResumeWakeWordDetection env \<Rightarrow> resumeWakeWordDetection env w
      | CallStartWakeWordDetection env \<Rightarrow> startWakeWordDetection env w
      | CallSetState st ctx \<Rightarrow> appSetState st ctx w
      | TimePasses ms \<Rightarrow> w\<lparr>clock := clock w + ms\<rparr>)"

fun run :: "event list \<Rightarrow> session \<Rightarrow> session" where
  "run [] w = w"
| "run (e # es) w = run es (handle e w)"

text \<open>
  The session the constructors leave: \<open>supported\<close> says whether the browser has speech
  recognition (the recognizer is created and the state subscriber registered), \<open>synth\<close>
  whether it has speech synthesis. Timer handles start at 1.
\<close>

definition newSession :: "bool \<Rightarrow> bool \<Rightarrow> StateManager \<Rightarrow> session" where
  "newSession supported synth sm =
     \<lparr>isListening = False, isRestarting = False, isPaused = False, isSpeaking = False,
      isInConversation = False, useLocalDetection = False,
      hasRecognition = supported, hasSynthesis = synth, stateListener = supported,
      consecutiveErrors = 0, restartAttempts = 0,
      pendingRestart = None, listeningTimeout = None, conversationTimeout = None,
      currentSpeechResolve = None, lastCommand = [],
      app = sm, clock = 0, nextTimer = 1, timers = [],
      utterances = [], nextUtterance = 1,
      recStartCalls = 0, recStopCalls = 0, localStarts = 0,
      dispatched = [], awaitingBackend = [], microtasks = []\<rparr>"

text \<open>The pending timers that were set by \<open>scheduleRestart\<close>.\<close>

definition restartTimers :: "session \<Rightarrow> timer list" where
  "restartTimers w = filter (\<lambda>t. t_cb t = RestartCb) (timers w)"

subsection \<open>Well-formed timer tables\<close>

text \<open>
  Handles are positive, below the next handle to be given out, and no two pending timers
  share one.
\<close>

definition timers_ok :: "timer list \<Rightarrow> nat \<Rightarrow> bool" where
  "timers_ok ts n =
     (0 < n \<and> (\<forall>t \<in> set ts. 0 < t_id t \<and> t_id t < n) \<and> distinct (map t_id ts))"

text \<open>A stored handle is positive and old, and a pending timer that carries it has the given
  callback.\<close>

definition handle_for :: "timer_callback \<Rightarrow> nat option \<Rightarrow> timer list \<Rightarrow> nat \<Rightarrow> bool" where
  "handle_for cb h ts n =
     (case h of
        None \<Rightarrow> True
      | Some i \<Rightarrow> 0 < i \<and> i < n \<and> (\<forall>t \<in> set ts. t_id t = i \<longrightarrow> t_cb t = cb))"

text \<open>The pending restart timers are exactly the one whose handle is in \<open>pendingRestart\<close>.\<close>

definition restart_is :: "nat option \<Rightarrow> timer list \<Rightarrow> bool" where
  "restart_is h ts =
     (map t_id (filter (\<lambda>t. t_cb t = RestartCb) ts) = (case h of None \<Rightarrow> [] | Some i \<Rightarrow> [i]))"

definition handles_ok :: "session \<Rightarrow> bool" where
  "handles_ok w =
     (timers_ok (timers w) (nextTimer w) \<and>
      handle_for ListeningTimeoutCb (listeningTimeout w) (timers w) (nextTimer w) \<and>
      handle_for ConversationTimeoutCb (conversationTimeout w) (timers w) (nextTimer w))"

definition restart_inv :: "session \<Rightarrow> bool" where
  "restart_inv w = (handles_ok w \<and> restart_is (pendingRestart w) (timers w))"

subsection \<open>Example sessions\<close>

text \<open>A platform that grants the microphone and starts the recognizer.\<close>

definition env_ok :: start_env where
  "env_ok = \<lparr>micPermission = True, startResult = Started\<rparr>"

definition fresh_session :: session where
  "fresh_session = newSession True True (newStateManager [] [])"

text \<open>
  The page starts the detection, the recognizer reports its start and then the final
  transcript \<open>Hey Luna what time is it\<close>; 600 ms later the command is dispatched and the
  assistant is Thinking.
\<close>

definition thinking_session :: session where
  "thinking_session =
     run [CallStartWakeWordDetection env_ok, RecStart,
          RecResult ''Hey Luna what time is it'' 80 True, TimerFired 1 env_ok] fresh_session"

text \<open>The response arrives and is being spoken.\<close>

definition speaking_session :: session where
  "speaking_session = run [CommandResolved 0 ''It is noon''] thinking_session"

text \<open>
  The utterance ends, the assistant returns to Listening and, 200 ms later, arms the
  conversation timeout.
\<close>

definition conversation_session :: session where
  "conversation_session =
     run [UtteranceDone 1, TimerFired 2 env_ok, TimerFired 3 env_ok] speaking_session"

section \<open>The backend round trip over the WebSocket (processCommand)\<close>

text \<open>
  \<open>processCommand\<close> in WebSocket mode returns a promise and installs three handlers on the
  API client; the variables \<open>timeoutId\<close>, \<open>isResolved\<close> and \<open>toolInProgress\<close> of its closure
  are fields of the record below, next to the timers the request has pending, the clock
  (milliseconds since the call) and the value the promise was resolved with. The messages
  that reach the client while the handlers of the request are not installed are passed to
  the handlers that were there before and are kept in a trace, like the calls of
  \<open>handleLateResponse\<close> and of the tool-start handler that was there before.
\<close>

text \<open>
  The object a command resolves to: a backend response with its text and the tools used
  (action \<open>api_response\<close>), or one of the local responses, identified by its action.
\<close>

datatype command_result = ApiResponse string "string list" | LocalResponse string

datatype request_callback = InitialTimeoutCb | ToolTimeoutCb

record request_timer =
  rt_id :: nat
  rt_due :: nat
  rt_cb :: request_callback

datatype ws_message =
    ToolStart string
  | TextResponse string "string list"
  | ErrorMessage string

record request =
  rq_command :: string
  rq_clock :: nat
  rq_nextTimer :: nat
  rq_timers :: "request_timer list"
  timeoutId :: "nat option"
  isResolved :: bool
  toolInProgress :: bool
  handlersInstalled :: bool
  originalToolStartHandler :: bool
  resolved :: "command_result option"
  sentMessages :: "string list"
  lateResponses :: "string list"
  originalToolStartCalls :: "string list"
  passedOn :: "ws_message list"

text \<open>
  \<open>getLocalResponse(command)\<close>: the categories are tried in order, and within a category
  its patterns; the first category with a pattern that occurs in the lower-cased command
  gives the response.
\<close>

definition localResponses :: "(string list \<times> string) list" where
  "localResponses =
     [([''hello'', ''hi'', ''hey'', ''good morning''], ''greeting''),
      ([''time'', ''what time'', ''current time''], ''time''),
      ([''date'', ''what day'', ''today''], ''date''),
      ([''help'', ''what can you do''], ''help''),
      ([''thank'', ''thanks'', ''appreciate''], ''thanks''),
      ([''bye'', ''goodbye'', ''see you''], ''goodbye''),
      ([''your name'', ''who are you''], ''identity'')]"

definition getLocalResponse :: "string \<Rightarrow> command_result" where
  "getLocalResponse command =
     (let cmd = toLowerCase command
      in case find (\<lambda>category. list_ex (\<lambda>pattern. includes_str cmd pattern) (fst category))
                localResponses of
           Some category \<Rightarrow> LocalResponse (snd category)
         | None \<Rightarrow> LocalResponse ''unknown'')"

definition requestSetTimeout ::
  "request_callback \<Rightarrow> nat \<Rightarrow> request \<Rightarrow> nat \<times> request" where
  "requestSetTimeout cb ms r =
     (rq_nextTimer r,
      r\<lparr>rq_timers := rq_timers r @
           [\<lparr>rt_id = rq_nextTimer r, rt_due = rq_clock r + ms, rt_cb = cb\<rparr>],
        rq_nextTimer := Suc (rq_nextTimer r)\<rparr>)"

definition requestClearTimeout :: "nat \<Rightarrow> request \<Rightarrow> request" where
  "requestClearTimeout i r = r\<lparr>rq_timers := filter (\<lambda>t. rt_id t \<noteq> i) (rq_timers r)\<rparr>"

text \<open>\<open>resolve(value)\<close>: a promise keeps the first value it is resolved with.\<close>

definition resolve :: "command_result \<Rightarrow> request \<Rightarrow> request" where
  "resolve v r = (case resolved r of None \<Rightarrow> r\<lparr>resolved := Some v\<rparr> | Some x \<Rightarrow> r)"

text \<open>\<open>cleanup\<close>: clear the pending timer and put back the handlers that were there before.\<close>

definition cleanup :: "request \<Rightarrow> request" where
  "cleanup r =
     (let r1 = (if truthy (timeoutId r)
                then (requestClearTimeout (the (timeoutId r)) r)\<lparr>timeoutId := None\<rparr>
                else r)
      in r1\<lparr>handlersInstalled := False\<rparr>)"

definition onResponse :: "string \<Rightarrow> string list \<Rightarrow> request \<Rightarrow> request" where
  "onResponse text toolsUsed r =
     (if isResolved r then r\<lparr>lateResponses := lateResponses r @ [text]\<rparr>
      else resolve (ApiResponse text toolsUsed) (cleanup (r\<lparr>isResolved := True\<rparr>)))"

definition onError :: "string \<Rightarrow> request \<Rightarrow> request" where
  "onError error r =
     (if isResolved r then r
      else resolve (getLocalResponse (rq_command r)) (cleanup (r\<lparr>isResolved := True\<rparr>)))"

text \<open>The callback of the 60 s timer set by the tool-start handler.\<close>

definition toolTimeoutFired :: "request \<Rightarrow> request" where
  "toolTimeoutFired r =
     (if \<not> isResolved r
      then resolve (getLocalResponse (rq_command r)) (cleanup (r\<lparr>isResolved := True\<rparr>))
      else r)"

definition onToolStart :: "string \<Rightarrow> request \<Rightarrow> request" where
  "onToolStart toolName r =
     (let r1 = r\<lparr>toolInProgress := True\<rparr>;
          r2 = (if originalToolStartHandler r1
                then r1\<lparr>originalToolStartCalls := originalToolStartCalls r1 @ [toolName]\<rparr>
                else r1)
      in if truthy (timeoutId r2) \<and> \<not> isResolved r2
         then let r3 = requestClearTimeout (the (timeoutId r2)) r2;
                  (i, r4) = requestSetTimeout ToolTimeoutCb 60000 r3
              in r4\<lparr>timeoutId := Some i\<rparr>
         else r2)"

text \<open>The callback of the initial 15 s timer.\<close>

definition initialTimeoutFired :: "request \<Rightarrow> request" where
  "initialTimeoutFired r =
     (if \<not> isResolved r \<and> \<not> toolInProgress r
      then resolve (getLocalResponse (rq_command r)) (cleanup (r\<lparr>isResolved := True\<rparr>))
      else r)"

text \<open>
  The call itself, with the API client connected: the handlers are installed, the message
  is sent (\<open>sendMessage\<close> is taken to return normally) and the initial timer is set.
  \<open>orig\<close> tells whether a tool-start handler was installed before.
\<close>

definition processCommand :: "string \<Rightarrow> bool \<Rightarrow> request" where
  "processCommand command orig =
     (let r0 = \<lparr>rq_command = command, rq_clock = 0, rq_nextTimer = 1, rq_timers = [],
                timeoutId = None, isResolved = False, toolInProgress = False,
                handlersInstalled = True, originalToolStartHandler = orig,
                resolved = None, sentMessages = [command], lateResponses = [],
                originalToolStartCalls = [], passedOn = []\<rparr>;
          (i, r1) = requestSetTimeout InitialTimeoutCb 15000 r0
      in r1\<lparr>timeoutId := Some i\<rparr>)"

text \<open>
  \<open>handleWsMessage\<close> calls the handler installed for the type of the message; after
  \<open>cleanup\<close> these are no longer the handlers of the request.
\<close>

definition deliver :: "ws_message \<Rightarrow> request \<Rightarrow> request" where
  "deliver m r =
     (if handlersInstalled r
      then (case m of
              ToolStart toolName \<Rightarrow> onToolStart toolName r
            | TextResponse text toolsUsed \<Rightarrow> onResponse text toolsUsed r
            | ErrorMessage error \<Rightarrow> onError error r)
      else r\<lparr>passedOn := passedOn r @ [m]\<rparr>)"

text \<open>A pending timer of the request expires; a timer that was cleared does nothing.\<close>

definition expire :: "nat \<Rightarrow> request \<Rightarrow> request" where
  "expire i r =
     (case filter (\<lambda>t. rt_id t = i) (rq_timers r) of
        [] \<Rightarrow> r
      | t # ts \<Rightarrow>
          (case rt_cb t of
             InitialTimeoutCb \<Rightarrow> initialTimeoutFired
           | ToolTimeoutCb \<Rightarrow> toolTimeoutFired)
            (r\<lparr>rq_timers := filter (\<lambda>t. rt_id t \<noteq> i) (rq_timers r),
               rq_clock := max (rq_clock r) (rt_due t)\<rparr>))"

text \<open>
  Time reaches \<open>t\<close>: the timers due by then expire, the earliest first (the callbacks set
  no timers).
\<close>

definition advance :: "nat \<Rightarrow> request \<Rightarrow> request" where
  "advance t r =
     (let r1 = foldl (\<lambda>r x. expire (rt_id x) r) r
                 (sort_key rt_due (filter (\<lambda>x. rt_due x \<le> t) (rq_timers r)))
      in r1\<lparr>rq_clock := max (rq_clock r1) t\<rparr>)"

text \<open>The messages of the backend, each with the time at which it arrives.\<close>

fun run_request :: "(nat \<times> ws_message) list \<Rightarrow> request \<Rightarrow> request" where
  "run_request [] r = r"
| "run_request ((t, m) # ms) r = run_request ms (deliver m (advance t r))"

section \<open>Properties of the state manager\<close>

lemma setState_invalid: "\<not> isValidState n \<Longrightarrow> setState n ctx now s = (False, s)"
  by (simp add: setState_def)

lemma setState_same:
  "isValidState (currentState s) \<Longrightarrow> setState (currentState s) ctx now s = (True, s)"
  by (simp add: setState_def)

lemma setState_valid: "isValidState (currentState s) \<Longrightarrow>
  isValidState (currentState (snd (setState n ctx now s)))"
  by (simp add: setState_def Let_def notifyListeners_def executeTransitionCallbacks_def)

lemma setStates_valid:
  "isValidState (currentState s) \<Longrightarrow> isValidState (currentState (setStates cs s))"
proof (induction cs arbitrary: s)
  case Nil
  then show ?case by simp
next
  case (Cons c cs)
  obtain n ctx now where c: "c = (n, ctx, now)" by (cases c)
  from Cons.prems have "isValidState (currentState (snd (setState n ctx now s)))"
    by (rule setState_valid)
  then show ?case using Cons.IH by (simp add: c)
qed

lemma newStateManager_valid: "isValidState (currentState (newStateManager ls tcs))"
  by (simp add: newStateManager_def isValidState_def states_def)

lemma length_last50: "length (last50 xs) \<le> 50"
  by (simp add: last50_def)

lemma last50_short: "length xs \<le> 50 \<Longrightarrow> last50 xs = xs"
  by (simp add: last50_def)

text \<open>\<open>push\<close> followed by the guarded \<open>shift\<close> keeps the last fifty.\<close>

lemma shift_is_last50:
  assumes "length xs \<le> 50"
  shows "(if length (xs @ [r]) > 50 then tl (xs @ [r]) else xs @ [r]) = last50 (xs @ [r])"
proof (cases "length (xs @ [r]) > 50")
  case True
  with assms have "length (xs @ [r]) - 50 = Suc 0" by simp
  then have "last50 (xs @ [r]) = tl (xs @ [r])"
    unfolding last50_def by (simp only: drop_Suc drop_0)
  with True show ?thesis by (simp only: if_True)
next
  case False
  then show ?thesis by (simp add: last50_def)
qed

lemma last50_append: "last50 (last50 xs @ ys) = last50 (xs @ ys)"
proof (cases "length xs \<le> 50")
  case True
  then show ?thesis by (simp add: last50_short)
next
  case False
  then show ?thesis by (simp add: last50_def add.commute)
qed

lemma setState_history_raw:
  "stateHistory (snd (setState n ctx now s)) =
     (if isValidState n \<and> n \<noteq> currentState s
      then (if length (stateHistory s @
                  [\<lparr>he_state = currentState s, he_timestamp = now, he_context = ctx\<rparr>]) > 50
            then tl (stateHistory s @
                  [\<lparr>he_state = currentState s, he_timestamp = now, he_context = ctx\<rparr>])
            else stateHistory s @
                  [\<lparr>he_state = currentState s, he_timestamp = now, he_context = ctx\<rparr>])
      else stateHistory s)"
  by (simp add: setState_def Let_def notifyListeners_def executeTransitionCallbacks_def)

lemma setState_history_step:
  assumes "length (stateHistory s) \<le> 50"
  shows "stateHistory (snd (setState n ctx now s)) =
     (if isValidState n \<and> n \<noteq> currentState s
      then last50 (stateHistory s @
             [\<lparr>he_state = currentState s, he_timestamp = now, he_context = ctx\<rparr>])
      else stateHistory s)"
  by (simp only: setState_history_raw shift_is_last50[OF assms])

lemma setState_current:
  "currentState (snd (setState n ctx now s)) =
     (if isValidState n then n else currentState s)"
  by (simp add: setState_def Let_def notifyListeners_def executeTransitionCallbacks_def)

lemma setState_history_len:
  "length (stateHistory s) \<le> 50 \<Longrightarrow>
   length (stateHistory (snd (setState n ctx now s))) \<le> 50"
  by (simp add: setState_history_step length_last50)

lemma setState_history_shift:
  assumes "length (stateHistory s) \<le> 50" and "isValidState n" and "n \<noteq> currentState s"
  shows "stateHistory (snd (setState n ctx now s)) =
     (if length (stateHistory s) = 50
      then tl (stateHistory s) @
             [\<lparr>he_state = currentState s, he_timestamp = now, he_context = ctx\<rparr>]
      else stateHistory s @
             [\<lparr>he_state = currentState s, he_timestamp = now, he_context = ctx\<rparr>])"
proof (cases "length (stateHistory s) = 50")
  case True
  then have "stateHistory s \<noteq> []" by auto
  then show ?thesis using True assms(2,3) by (simp add: setState_history_raw)
next
  case False
  with assms(1) have "length (stateHistory s) < 50" by simp
  then show ?thesis using assms(2,3) by (simp add: setState_history_raw)
qed

text \<open>\<open>getStateDuration\<close> and \<open>export\<close> keep the length of the history, not its order.\<close>

lemma getStateDuration_history:
  "stateHistory (snd (getStateDuration now s)) = rev (stateHistory s)"
  by (simp add: getStateDuration_def Let_def)

lemma export_history:
  "stateHistory (snd (export now s)) = rev (stateHistory s)"
  by (simp add: export_def Let_def split_beta getStateDuration_history)

lemma call_history_len:
  assumes "length (stateHistory s) \<le> 50"
  shows "length (stateHistory (call c s)) \<le> 50"
proof (cases c)
  case (SetState n ctx now)
  then show ?thesis using setState_history_len[OF assms] by simp
next
  case (Reset now)
  then show ?thesis using setState_history_len[OF assms] by (simp add: reset_def)
next
  case (GetStateDuration now)
  then show ?thesis using assms by (simp add: getStateDuration_history)
next
  case (Export now)
  then show ?thesis using assms by (simp add: export_history)
qed (use assms in \<open>simp_all add: subscribe_def unsubscribe_def onTransition_def
       offTransition_def\<close>)

lemma calls_history_len:
  "length (stateHistory s) \<le> 50 \<Longrightarrow> length (stateHistory (calls cs s)) \<le> 50"
proof (induction cs arbitrary: s)
  case Nil
  then show ?case by simp
next
  case (Cons c cs)
  from Cons.prems have "length (stateHistory (call c s)) \<le> 50" by (rule call_history_len)
  then show ?case using Cons.IH by simp
qed

text \<open>One \<open>setState\<close> call in front of a sequence whose history is known.\<close>

lemma setState_then:
  assumes len: "length (stateHistory s) \<le> 50"
    and rest: "\<And>t. length (stateHistory t) \<le> 50 \<Longrightarrow>
             stateHistory (f t) = last50 (stateHistory t @ accepted as (currentState t))"
  shows "stateHistory (f (snd (setState n ctx now s))) =
           last50 (stateHistory s @ accepted ((n, ctx, now) # as) (currentState s))"
proof -
  let ?s' = "snd (setState n ctx now s)"
  have len': "length (stateHistory ?s') \<le> 50"
    using len by (rule setState_history_len)
  show ?thesis
  proof (cases "isValidState n \<and> n \<noteq> currentState s")
    case True
    let ?r = "\<lparr>he_state = currentState s, he_timestamp = now, he_context = ctx\<rparr>"
    have h: "stateHistory ?s' = last50 (stateHistory s @ [?r])"
      using True len by (simp add: setState_history_step)
    have cur: "currentState ?s' = n"
      using True by (simp add: setState_current)
    have "stateHistory (f ?s') = last50 (last50 (stateHistory s @ [?r]) @ accepted as n)"
      using rest[OF len'] by (simp only: h cur)
    also have "\<dots> = last50 ((stateHistory s @ [?r]) @ accepted as n)"
      by (rule last50_append)
    finally show ?thesis using True by simp
  next
    case False
    then have "stateHistory ?s' = stateHistory s" "currentState ?s' = currentState s"
      using len by (auto simp add: setState_history_step setState_current)
    then show ?thesis using rest[OF len'] False by auto
  qed
qed

text \<open>
  As long as \<open>getStateDuration\<close> is not reached, the history is the last fifty of the
  records of the accepted transitions, oldest first.
\<close>

lemma calls_history:
  "length (stateHistory s) \<le> 50 \<Longrightarrow> \<forall>c \<in> set cs. \<not> reads_duration c \<Longrightarrow>
   stateHistory (calls cs s) =
     last50 (stateHistory s @ accepted (setState_calls cs) (currentState s))"
proof (induction cs arbitrary: s)
  case Nil
  then show ?case by (simp add: last50_short)
next
  case (Cons c cs)
  from Cons.prems(2) have no: "\<forall>c \<in> set cs. \<not> reads_duration c" by simp
  have rest: "\<And>t. length (stateHistory t) \<le> 50 \<Longrightarrow>
      stateHistory (calls cs t) =
        last50 (stateHistory t @ accepted (setState_calls cs) (currentState t))"
    using Cons.IH no by simp
  show ?case
  proof (cases c)
    case (SetState n ctx now)
    then show ?thesis using setState_then[OF Cons.prems(1) rest] by simp
  next
    case (Reset now)
    then show ?thesis using setState_then[OF Cons.prems(1) rest] by (simp add: reset_def)
  next
    case (GetStateDuration now)
    with Cons.prems(2) show ?thesis by simp
  next
    case (Export now)
    with Cons.prems(2) show ?thesis by simp
  next
    case (Subscribe ev cb)
    then show ?thesis using rest[of "subscribe ev cb s"] Cons.prems(1)
      by (simp add: subscribe_def)
  next
    case (Unsubscribe ev cb)
    then show ?thesis using rest[of "unsubscribe ev cb s"] Cons.prems(1)
      by (simp add: unsubscribe_def)
  next
    case (OnTransition ev cb)
    then show ?thesis using rest[of "onTransition ev cb s"] Cons.prems(1)
      by (simp add: onTransition_def)
  next
    case (OffTransition ev cb)
    then show ?thesis using rest[of "offTransition ev cb s"] Cons.prems(1)
      by (simp add: offTransition_def)
  qed
qed

text \<open>
  A call of \<open>export\<close> between transitions: the exported history is in order, the array it
  leaves behind is reversed, and the record of the next transition is appended after the
  oldest one.
\<close>

lemma export_reverses_history:
  "ex_history (fst (export 3 (calls [SetState ''waking'' [] 1, SetState ''listening'' [] 2]
       (newStateManager [] []))))
     = [\<lparr>he_state = ''idle'', he_timestamp = 1, he_context = []\<rparr>,
        \<lparr>he_state = ''waking'', he_timestamp = 2, he_context = []\<rparr>] \<and>
   stateHistory (calls [SetState ''waking'' [] 1, SetState ''listening'' [] 2, Export 3,
       SetState ''thinking'' [] 4] (newStateManager [] []))
     = [\<lparr>he_state = ''waking'', he_timestamp = 2, he_context = []\<rparr>,
        \<lparr>he_state = ''idle'', he_timestamp = 1, he_context = []\<rparr>,
        \<lparr>he_state = ''listening'', he_timestamp = 4, he_context = []\<rparr>]"
  by (simp add: export_def getStateHistory_def getStateDuration_def Let_def split_beta
        setState_history_raw setState_current newStateManager_def isValidState_def states_def)

text \<open>
  Claim C6. In every state the manager reaches through \<open>setState\<close> from its initial
  state, a call whose target equals the current state returns \<open>true\<close> and changes
  nothing (state, history, callback traces and timers are those of before); a call whose
  target is none of the six enumeration values returns \<open>false\<close> and changes nothing
  either: the current state is kept, no history record is appended and no subscriber is
  called.
\<close>

theorem setState_noop_and_reject:
  "setState (currentState (setStates cs (newStateManager ls tcs))) ctx now
       (setStates cs (newStateManager ls tcs))
     = (True, setStates cs (newStateManager ls tcs)) \<and>
   (n \<notin> set [''idle'', ''waking'', ''listening'', ''thinking'', ''speaking'', ''error'']
      \<longrightarrow> setState n ctx now (setStates cs (newStateManager ls tcs))
            = (False, setStates cs (newStateManager ls tcs)))"
proof -
  have "isValidState (currentState (setStates cs (newStateManager ls tcs)))"
    by (rule setStates_valid) (rule newStateManager_valid)
  then show ?thesis
    using setState_same setState_invalid[of n]
    by (simp add: isValidState_def states_def)
qed

theorem setState_noop_and_reject_witness:
  "setState ''waking'' [] 3 (setStates [(''waking'', [], 2)] (newStateManager [] []))
     = (True, setStates [(''waking'', [], 2)] (newStateManager [] [])) \<and>
   setState ''sleeping'' [] 3 (setStates [(''waking'', [], 2)] (newStateManager [] []))
     = (False, setStates [(''waking'', [], 2)] (newStateManager [] []))"
proof -
  have cur: "currentState (setStates [(''waking'', [], 2)] (newStateManager [] [])) = ''waking''"
    by (simp add: setState_current isValidState_def states_def)
  from setState_noop_and_reject
         [of "[(''waking'', [], 2)]" "[]" "[]" "[]" 3 "''sleeping''"]
  show ?thesis unfolding cur by simp
qed

text \<open>
  Claim C9, as the code has it. The manager is in a state reached from the constructor by
  any sequence of calls of its methods (\<open>setState\<close>, \<open>reset\<close>, \<open>getStateDuration\<close>,
  \<open>export\<close>, \<open>subscribe\<close>, \<open>onTransition\<close> and the functions these two return). The history
  never holds more than fifty records, before and after every \<open>setState\<close> call. The record
  pushed on an accepted transition has three fields: the state being left, the timestamp
  and the context of the call; the target state is not part of it. The record is appended
  at the end of the array, and when the array already holds fifty its first element is
  removed. As long as no call has reached \<open>getStateDuration\<close>, the history is exactly the
  most recent fifty of the records of the accepted transitions, oldest first.
\<close>

theorem history_record_and_bound:
  "length (stateHistory (calls cs (newStateManager ls tcs))) \<le> 50 \<and>
   length (stateHistory (snd (setState n ctx now (calls cs (newStateManager ls tcs))))) \<le> 50 \<and>
   (isValidState n \<and> n \<noteq> currentState (calls cs (newStateManager ls tcs)) \<longrightarrow>
      stateHistory (snd (setState n ctx now (calls cs (newStateManager ls tcs)))) =
        (if length (stateHistory (calls cs (newStateManager ls tcs))) = 50
         then tl (stateHistory (calls cs (newStateManager ls tcs))) @
                [\<lparr>he_state = currentState (calls cs (newStateManager ls tcs)),
                  he_timestamp = now, he_context = ctx\<rparr>]
         else stateHistory (calls cs (newStateManager ls tcs)) @
                [\<lparr>he_state = currentState (calls cs (newStateManager ls tcs)),
                  he_timestamp = now, he_context = ctx\<rparr>])) \<and>
   ((\<forall>c \<in> set cs. \<not> reads_duration c) \<longrightarrow>
      stateHistory (calls cs (newStateManager ls tcs))
        = last50 (accepted (setState_calls cs) ''idle''))"
proof -
  let ?s = "calls cs (newStateManager ls tcs)"
  have len0: "length (stateHistory (newStateManager ls tcs)) \<le> 50"
    by (simp add: newStateManager_def)
  then have len: "length (stateHistory ?s) \<le> 50" by (rule calls_history_len)
  then have len': "length (stateHistory (snd (setState n ctx now ?s))) \<le> 50"
    by (rule setState_history_len)
  have step: "isValidState n \<and> n \<noteq> currentState ?s \<longrightarrow>
      stateHistory (snd (setState n ctx now ?s)) =
        (if length (stateHistory ?s) = 50
         then tl (stateHistory ?s) @
                [\<lparr>he_state = currentState ?s, he_timestamp = now, he_context = ctx\<rparr>]
         else stateHistory ?s @
                [\<lparr>he_state = currentState ?s, he_timestamp = now, he_context = ctx\<rparr>])"
    using setState_history_shift[OF len] by blast
  have ord: "(\<forall>c \<in> set cs. \<not> reads_duration c) \<longrightarrow>
      stateHistory ?s = last50 (accepted (setState_calls cs) ''idle'')"
    using calls_history[OF len0] by (simp add: newStateManager_def)
  from len len' step ord show ?thesis by (intro conjI)
qed

theorem history_record_and_bound_witness:
  "stateHistory (calls [Subscribe ''stateChange'' 1, SetState ''waking'' [] 5,
       SetState ''waking'' [] 6] (newStateManager [] []))
     = [\<lparr>he_state = ''idle'', he_timestamp = 5, he_context = []\<rparr>] \<and>
   stateHistory (snd (setState ''listening'' [(''source'', VStr ''wake-word'')] 9
       (calls [Subscribe ''stateChange'' 1, SetState ''waking'' [] 5,
          SetState ''waking'' [] 6] (newStateManager [] []))))
     = [\<lparr>he_state = ''idle'', he_timestamp = 5, he_context = []\<rparr>,
        \<lparr>he_state = ''waking'', he_timestamp = 9,
          he_context = [(''source'', VStr ''wake-word'')]\<rparr>]"
proof -
  let ?cs = "[Subscribe ''stateChange'' 1, SetState ''waking'' [] 5, SetState ''waking'' [] 6]"
  have cur: "currentState (calls ?cs (newStateManager [] [])) = ''waking''"
    by (simp add: setState_current isValidState_def states_def subscribe_def)
  have acc: "last50 (accepted (setState_calls ?cs) ''idle'')
               = [\<lparr>he_state = ''idle'', he_timestamp = 5, he_context = []\<rparr>]"
    by (simp add: isValidState_def states_def last50_def)
  have no: "\<forall>c \<in> set ?cs. \<not> reads_duration c" by simp
  note th = history_record_and_bound
         [of ?cs "[]" "[]" "''listening''" "[(''source'', VStr ''wake-word'')]" 9]
  from th no have h: "stateHistory (calls ?cs (newStateManager [] []))
               = [\<lparr>he_state = ''idle'', he_timestamp = 5, he_context = []\<rparr>]"
    unfolding acc by blast
  have v: "isValidState ''listening'' \<and> ''listening'' \<noteq> ''waking''"
    by (simp add: isValidState_def states_def)
  from th v show ?thesis unfolding cur h by simp
qed

text \<open>
  The claim as written asks for the target state in the record. Two transitions out of
  Idle at the same time and with the same context, one to Waking and one to Listening,
  push the same record.
\<close>

theorem history_record_target_counterexample:
  "stateHistory (snd (setState ''waking'' [] 7 (newStateManager [] [])))
     = [\<lparr>he_state = ''idle'', he_timestamp = 7, he_context = []\<rparr>] \<and>
   stateHistory (snd (setState ''listening'' [] 7 (newStateManager [] [])))
     = stateHistory (snd (setState ''waking'' [] 7 (newStateManager [] []))) \<and>
   currentState (snd (setState ''listening'' [] 7 (newStateManager [] [])))
     \<noteq> currentState (snd (setState ''waking'' [] 7 (newStateManager [] [])))"
  by (simp add: setState_history_raw setState_current newStateManager_def
        isValidState_def states_def)

section \<open>Properties of the transcript functions\<close>

lemma detectLoop_False_extract: "\<not> detectLoop ws c \<Longrightarrow> extractLoop ws c = c"
  by (induction ws) (auto simp add: includes_str_def split: if_splits)

lemma trimEnd_Cons:
  "trimEnd (c # s) = (if trimEnd s = [] then (if isSpace c then [] else [c]) else c # trimEnd s)"
  by (auto simp add: trimEnd_def dropWhile_append)

lemma trimEnd_Nil [simp]: "trimEnd [] = []"
  by (simp add: trimEnd_def)

lemma trimEnd_idem: "trimEnd (trimEnd s) = trimEnd s"
  by (simp add: trimEnd_def)

lemma trimStart_trimEnd:
  "s = [] \<or> \<not> isSpace (hd s) \<Longrightarrow> trimStart (trimEnd s) = trimEnd s"
  by (cases s) (auto simp add: trimEnd_Cons trimStart_def)

lemma trimStart_head: "trimStart s = [] \<or> \<not> isSpace (hd (trimStart s))"
  unfolding trimStart_def by (metis hd_dropWhile)

lemma trim_idem: "trim (trim s) = trim s"
  using trimStart_trimEnd[OF trimStart_head, of s] by (simp add: trim_def trimEnd_idem)

lemma trim_space_trim: "isSpace c \<Longrightarrow> trim (c # trim s) = trim s"
proof -
  assume "isSpace c"
  then have "trim (c # trim s) = trim (trim s)" by (simp add: trim_def trimStart_def)
  then show ?thesis by (simp add: trim_idem)
qed

lemma normalizeSpaces_head:
  "s = [] \<or> \<not> isSpace (hd s) \<Longrightarrow> trimStart (normalizeSpaces s) = normalizeSpaces s"
  by (cases s) (auto simp add: trimStart_def)

lemma trimStart_normalizeSpaces:
  "trimStart (normalizeSpaces s) = normalizeSpaces (trimStart s)"
proof (cases s)
  case Nil
  then show ?thesis by (simp add: trimStart_def)
next
  case (Cons c cs)
  show ?thesis
  proof (cases "isSpace c")
    case True
    have "trimStart (normalizeSpaces (trimStart cs)) = normalizeSpaces (trimStart cs)"
      by (rule normalizeSpaces_head) (rule trimStart_head)
    then show ?thesis using True Cons by (simp add: trimStart_def isSpace_def)
  next
    case False
    then show ?thesis using Cons by (simp add: trimStart_def)
  qed
qed

lemma cleanTranscript_alt:
  "cleanTranscript t = trimEnd (normalizeSpaces (trimStart (removePunctuation (toLowerCase t))))"
  by (simp add: cleanTranscript_def trim_def trimStart_normalizeSpaces)

lemma trim_clean [simp]: "trim (cleanTranscript t) = cleanTranscript t"
  by (simp add: cleanTranscript_def trim_idem)

lemma trim_space_clean [simp]: "trim (CHR '' '' # cleanTranscript t) = cleanTranscript t"
  by (simp add: cleanTranscript_def trim_space_trim isSpace_def)


lemma lowerChar_wake:
  "lowerChar CHR ''h'' = CHR ''h''" "lowerChar CHR ''e'' = CHR ''e''"
  "lowerChar CHR ''y'' = CHR ''y''" "lowerChar CHR ''l'' = CHR ''l''"
  "lowerChar CHR ''u'' = CHR ''u''" "lowerChar CHR ''n'' = CHR ''n''"
  "lowerChar CHR ''a'' = CHR ''a''" "lowerChar CHR ''o'' = CHR ''o''"
  "lowerChar CHR ''k'' = CHR ''k''" "lowerChar CHR ''d'' = CHR ''d''"
  "lowerChar CHR '' '' = CHR '' ''"
  by (simp_all add: lowerChar_def)

lemma cleanWakeWord_wake:
  "cleanWakeWord ''hey luna'' = ''hey luna''" "cleanWakeWord ''luna'' = ''luna''"
  "cleanWakeWord ''ok luna'' = ''ok luna''" "cleanWakeWord ''luda'' = ''luda''"
  "cleanWakeWord ''hey luda'' = ''hey luda''" "cleanWakeWord ''ok luda'' = ''ok luda''"
  by code_simp+

lemma trim_Nil [simp]: "trim [] = []"
  by (simp add: trim_def trimStart_def)

lemma wake_cases:
  "w \<in> set allWakeWords \<Longrightarrow>
   w = ''hey luna'' \<or> w = ''luna'' \<or> w = ''ok luna'' \<or>
   w = ''luda'' \<or> w = ''hey luda'' \<or> w = ''ok luda''"
  unfolding allWakeWords_def wakeWord_def alternativeWakeWords_def
  apply (simp only: set_simps insert_iff empty_iff)
  apply (elim disjE)
  apply simp_all
  done

lemma trimEnd_Cons_nonspace: "\<not> isSpace c \<Longrightarrow> trimEnd (c # s) = c # trimEnd s"
  by (simp add: trimEnd_Cons)

lemma trimEnd_Cons_space:
  "isSpace c \<Longrightarrow> trimEnd (c # s) = (if trimEnd s = [] then [] else c # trimEnd s)"
  by (simp add: trimEnd_Cons)

lemma isSpace_wake:
  "\<not> isSpace CHR ''h''" "\<not> isSpace CHR ''e''" "\<not> isSpace CHR ''y''"
  "\<not> isSpace CHR ''l''" "\<not> isSpace CHR ''u''" "\<not> isSpace CHR ''n''"
  "\<not> isSpace CHR ''a''" "\<not> isSpace CHR ''o''" "\<not> isSpace CHR ''k''"
  "\<not> isSpace CHR ''d''" "isSpace CHR '' ''"
  by (simp_all add: isSpace_def)

lemma clean_after_wake_each:
  "cleanTranscript (''hey luna'' @ CHR '' '' # cmd) =
     (if cleanTranscript cmd = [] then ''hey luna''
      else ''hey luna'' @ CHR '' '' # cleanTranscript cmd)"
  "cleanTranscript (''luna'' @ CHR '' '' # cmd) =
     (if cleanTranscript cmd = [] then ''luna'' else ''luna'' @ CHR '' '' # cleanTranscript cmd)"
  "cleanTranscript (''ok luna'' @ CHR '' '' # cmd) =
     (if cleanTranscript cmd = [] then ''ok luna''
      else ''ok luna'' @ CHR '' '' # cleanTranscript cmd)"
  "cleanTranscript (''luda'' @ CHR '' '' # cmd) =
     (if cleanTranscript cmd = [] then ''luda'' else ''luda'' @ CHR '' '' # cleanTranscript cmd)"
  "cleanTranscript (''hey luda'' @ CHR '' '' # cmd) =
     (if cleanTranscript cmd = [] then ''hey luda''
      else ''hey luda'' @ CHR '' '' # cleanTranscript cmd)"
  "cleanTranscript (''ok luda'' @ CHR '' '' # cmd) =
     (if cleanTranscript cmd = [] then ''ok luda''
      else ''ok luda'' @ CHR '' '' # cleanTranscript cmd)"
  by (simp_all add: cleanTranscript_alt toLowerCase_def lowerChar_wake
        removePunctuation_def isPunct_def trimStart_def isSpace_wake
        trimEnd_Cons_nonspace trimEnd_Cons_space)

lemma not_includes: "\<not> includes_str s p \<Longrightarrow> indexOf s p = None"
  by (simp add: includes_str_def)

lemma extract_hey_luna:
  "extractLoop allWakeWords (''hey luna'' @ CHR '' '' # cleanTranscript cmd) = cleanTranscript cmd"
  "extractLoop allWakeWords ''hey luna'' = []"
  by (simp_all add: allWakeWords_def wakeWord_def alternativeWakeWords_def cleanWakeWord_wake
        substring_def)

lemma extract_luna:
  assumes "\<not> includes_str (cleanTranscript cmd) ''hey luna''"
  shows "extractLoop allWakeWords (''luna'' @ CHR '' '' # cleanTranscript cmd) = cleanTranscript cmd"
    and "extractLoop allWakeWords ''luna'' = []"
  using not_includes[OF assms]
  by (simp_all add: allWakeWords_def wakeWord_def alternativeWakeWords_def cleanWakeWord_wake
        substring_def)

lemma extract_ok_luna:
  assumes "\<not> includes_str (cleanTranscript cmd) ''hey luna''"
  shows "extractLoop allWakeWords (''ok luna'' @ CHR '' '' # cleanTranscript cmd) = cleanTranscript cmd"
    and "extractLoop allWakeWords ''ok luna'' = []"
  using not_includes[OF assms]
  by (simp_all add: allWakeWords_def wakeWord_def alternativeWakeWords_def cleanWakeWord_wake
        substring_def)

lemma extract_luda:
  assumes "\<not> includes_str (cleanTranscript cmd) ''hey luna''"
    and "\<not> includes_str (cleanTranscript cmd) ''luna''"
    and "\<not> includes_str (cleanTranscript cmd) ''ok luna''"
  shows "extractLoop allWakeWords (''luda'' @ CHR '' '' # cleanTranscript cmd) = cleanTranscript cmd"
    and "extractLoop allWakeWords ''luda'' = []"
    and "extractLoop allWakeWords (''hey luda'' @ CHR '' '' # cleanTranscript cmd) = cleanTranscript cmd"
    and "extractLoop allWakeWords ''hey luda'' = []"
    and "extractLoop allWakeWords (''ok luda'' @ CHR '' '' # cleanTranscript cmd) = cleanTranscript cmd"
    and "extractLoop allWakeWords ''ok luda'' = []"
  using assms[THEN not_includes]
  by (simp_all add: allWakeWords_def wakeWord_def alternativeWakeWords_def cleanWakeWord_wake
        substring_def)

lemma earlier_words:
  "takeWhile (\<lambda>p. \<not> includes_str ''hey luna'' (cleanWakeWord p)) allWakeWords = []"
  "takeWhile (\<lambda>p. \<not> includes_str ''luna'' (cleanWakeWord p)) allWakeWords = [''hey luna'']"
  "takeWhile (\<lambda>p. \<not> includes_str ''ok luna'' (cleanWakeWord p)) allWakeWords = [''hey luna'']"
  "takeWhile (\<lambda>p. \<not> includes_str ''luda'' (cleanWakeWord p)) allWakeWords
     = [''hey luna'', ''luna'', ''hey luna'', ''ok luna'']"
  "takeWhile (\<lambda>p. \<not> includes_str ''hey luda'' (cleanWakeWord p)) allWakeWords
     = [''hey luna'', ''luna'', ''hey luna'', ''ok luna'']"
  "takeWhile (\<lambda>p. \<not> includes_str ''ok luda'' (cleanWakeWord p)) allWakeWords
     = [''hey luna'', ''luna'', ''hey luna'', ''ok luna'']"
  by code_simp+

text \<open>
  Claim C7, as the code has it. For every wake phrase \<open>w\<close> of the list and every command
  string, the command extracted from \<open>w + " " + cmd\<close> is \<open>cmd\<close> in cleaned form: lower
  case, the characters \<open>.,!?\<close> removed, every run of white space collapsed to one space,
  trimmed. This holds when the cleaned command contains none of the wake words that the
  loop tries before the first one that occurs in \<open>w\<close> itself: nothing for
  \<open>hey luna\<close>, \<open>hey luna\<close> for \<open>luna\<close> and \<open>ok luna\<close>, and any \<open>luna\<close> for the three
  \<open>luda\<close> phrases.
\<close>

theorem extract_after_wake_phrase:
  assumes w: "w \<in> set allWakeWords"
    and free: "\<forall>p \<in> set (takeWhile (\<lambda>p. \<not> includes_str w (cleanWakeWord p)) allWakeWords).
                 \<not> includes_str (cleanTranscript cmd) (cleanWakeWord p)"
  shows "extractCommandFromTranscript (w @ '' '' @ cmd) = cleanTranscript cmd"
proof -
  from wake_cases[OF w] show ?thesis
  proof (elim disjE)
    assume 1: "w = ''hey luna''"
    show ?thesis unfolding 1 extractCommandFromTranscript_def
      using clean_after_wake_each[of cmd] extract_hey_luna(1)[of cmd] extract_hey_luna(2)
      by (simp del: extractLoop.simps)
  next
    assume 1: "w = ''luna''"
    from free have h: "\<not> includes_str (cleanTranscript cmd) ''hey luna''"
      unfolding 1 earlier_words by (simp add: cleanWakeWord_wake)
    show ?thesis unfolding 1 extractCommandFromTranscript_def
      using clean_after_wake_each[of cmd] extract_luna[OF h]
      by (simp del: extractLoop.simps)
  next
    assume 1: "w = ''ok luna''"
    from free have h: "\<not> includes_str (cleanTranscript cmd) ''hey luna''"
      unfolding 1 earlier_words by (simp add: cleanWakeWord_wake)
    show ?thesis unfolding 1 extractCommandFromTranscript_def
      using clean_after_wake_each[of cmd] extract_ok_luna[OF h]
      by (simp del: extractLoop.simps)
  next
    assume 1: "w = ''luda''"
    from free have h: "\<not> includes_str (cleanTranscript cmd) ''hey luna''"
      "\<not> includes_str (cleanTranscript cmd) ''luna''"
      "\<not> includes_str (cleanTranscript cmd) ''ok luna''"
      unfolding 1 earlier_words by (simp_all add: cleanWakeWord_wake)
    show ?thesis unfolding 1 extractCommandFromTranscript_def
      using clean_after_wake_each[of cmd] extract_luda[OF h]
      by (simp del: extractLoop.simps)
  next
    assume 1: "w = ''hey luda''"
    from free have h: "\<not> includes_str (cleanTranscript cmd) ''hey luna''"
      "\<not> includes_str (cleanTranscript cmd) ''luna''"
      "\<not> includes_str (cleanTranscript cmd) ''ok luna''"
      unfolding 1 earlier_words by (simp_all add: cleanWakeWord_wake)
    show ?thesis unfolding 1 extractCommandFromTranscript_def
      using clean_after_wake_each[of cmd] extract_luda[OF h]
      by (simp del: extractLoop.simps)
  next
    assume 1: "w = ''ok luda''"
    from free have h: "\<not> includes_str (cleanTranscript cmd) ''hey luna''"
      "\<not> includes_str (cleanTranscript cmd) ''luna''"
      "\<not> includes_str (cleanTranscript cmd) ''ok luna''"
      unfolding 1 earlier_words by (simp_all add: cleanWakeWord_wake)
    show ?thesis unfolding 1 extractCommandFromTranscript_def
      using clean_after_wake_each[of cmd] extract_luda[OF h]
      by (simp del: extractLoop.simps)
  qed
qed

theorem extract_after_wake_phrase_witness:
  "''luda'' \<in> set allWakeWords \<and>
   extractCommandFromTranscript (''luda'' @ '' '' @ ''Turn on  the lights!'')
     = ''turn on the lights''"
proof -
  have h1: "''luda'' \<in> set allWakeWords" by code_simp
  have h2: "\<forall>p \<in> set (takeWhile (\<lambda>p. \<not> includes_str ''luda'' (cleanWakeWord p)) allWakeWords).
      \<not> includes_str (cleanTranscript ''Turn on  the lights!'') (cleanWakeWord p)"
    by code_simp
  have h3: "cleanTranscript ''Turn on  the lights!'' = ''turn on the lights''" by code_simp
  from extract_after_wake_phrase[OF h1 h2]
  have "extractCommandFromTranscript (''luda'' @ '' '' @ ''Turn on  the lights!'')
     = ''turn on the lights''" unfolding h3 .
  with h1 show ?thesis by (intro conjI)
qed

text \<open>
  The claim as written returns \<open>cmd\<close> trimmed. A command with a capital letter and a
  question mark comes back in lower case without the question mark, and after the wake
  phrase \<open>luda\<close> a command that mentions \<open>luna\<close> is cut after that word.
\<close>

theorem extract_roundtrip_counterexample:
  "extractCommandFromTranscript (''hey luna'' @ '' '' @ ''What time is it?'')
     \<noteq> trim ''What time is it?'' \<and>
   extractCommandFromTranscript (''luda'' @ '' '' @ ''call luna now'')
     \<noteq> trim ''call luna now''"
  by code_simp

text \<open>
  Claim C10. When no wake word occurs in the cleaned transcript (\<open>detectWakeWord\<close> is
  false), \<open>extractCommandFromTranscript\<close> returns the whole cleaned transcript: lower
  case, \<open>.,!?\<close> removed, white space collapsed and trimmed. The function has no separate
  result for a transcript without wake word.
\<close>

theorem extract_without_wake_word:
  "\<not> detectWakeWord transcript \<Longrightarrow>
   extractCommandFromTranscript transcript = cleanTranscript transcript"
  by (simp add: detectWakeWord_def extractCommandFromTranscript_def detectLoop_False_extract)

theorem extract_without_wake_word_witness:
  "\<not> detectWakeWord ''What  time is it?'' \<and>
   extractCommandFromTranscript ''What  time is it?'' = ''what time is it''"
proof -
  have h: "\<not> detectWakeWord ''What  time is it?''" by code_simp
  have c: "cleanTranscript ''What  time is it?'' = ''what time is it''" by code_simp
  from extract_without_wake_word[OF h] have
    "extractCommandFromTranscript ''What  time is it?'' = ''what time is it''"
    unfolding c .
  with h show ?thesis by (intro conjI)
qed

section \<open>One restart timer at a time\<close>

lemma timers_ok_append:
  "timers_ok ts n \<Longrightarrow> timers_ok (ts @ [\<lparr>t_id = n, t_due = d, t_cb = cb\<rparr>]) (Suc n)"
  by (auto simp add: timers_ok_def less_Suc_eq)

lemma timers_ok_filter: "timers_ok ts n \<Longrightarrow> timers_ok (filter P ts) n"
  by (auto simp add: timers_ok_def distinct_map_filter)

lemma handle_for_append:
  "timers_ok ts n \<Longrightarrow> handle_for cb h ts n \<Longrightarrow>
   handle_for cb h (ts @ [\<lparr>t_id = n, t_due = d, t_cb = cb'\<rparr>]) (Suc n)"
  by (auto simp add: handle_for_def split: option.splits)

lemma handle_for_new:
  "timers_ok ts n \<Longrightarrow>
   handle_for cb (Some n) (ts @ [\<lparr>t_id = n, t_due = d, t_cb = cb\<rparr>]) (Suc n)"
  by (auto simp add: handle_for_def timers_ok_def)

lemma handle_for_filter: "handle_for cb h ts n \<Longrightarrow> handle_for cb h (filter P ts) n"
  by (auto simp add: handle_for_def split: option.splits)

lemma handle_for_None [simp]: "handle_for cb None ts n"
  by (simp add: handle_for_def)

lemma restart_is_append:
  "cb \<noteq> RestartCb \<Longrightarrow> restart_is h (ts @ [\<lparr>t_id = n, t_due = d, t_cb = cb\<rparr>]) = restart_is h ts"
  by (simp add: restart_is_def)

lemma restart_is_new:
  "restart_is None ts \<Longrightarrow> restart_is (Some n) (ts @ [\<lparr>t_id = n, t_due = d, t_cb = RestartCb\<rparr>])"
  by (simp add: restart_is_def)

text \<open>Removing a timer that is not a restart timer leaves the restart timers alone.\<close>

lemma restart_is_remove_other:
  assumes "restart_is h ts" and "\<forall>t \<in> set ts. t_id t = i \<longrightarrow> t_cb t \<noteq> RestartCb"
  shows "restart_is h (filter (\<lambda>t. t_id t \<noteq> i) ts)"
proof -
  have "filter (\<lambda>t. t_cb t = RestartCb) (filter (\<lambda>t. t_id t \<noteq> i) ts)
        = filter (\<lambda>t. t_cb t = RestartCb) ts"
    using assms(2) by (auto simp add: filter_id_conv intro!: filter_cong)
  with assms(1) show ?thesis by (simp add: restart_is_def)
qed

text \<open>Removing the restart timer leaves none.\<close>

lemma restart_is_remove_self:
  assumes "restart_is (Some i) ts"
  shows "restart_is None (filter (\<lambda>t. t_id t \<noteq> i) ts)"
proof -
  have "t_id t = i" if "t \<in> set ts" "t_cb t = RestartCb" for t
  proof -
    from that have "t_id t \<in> set (map t_id (filter (\<lambda>t. t_cb t = RestartCb) ts))" by simp
    with assms show ?thesis by (simp add: restart_is_def)
  qed
  then have "filter (\<lambda>t. t_cb t = RestartCb) (filter (\<lambda>t. t_id t \<noteq> i) ts) = []"
    by (auto simp add: filter_empty_conv)
  then show ?thesis by (simp add: restart_is_def)
qed

lemma restart_inv_fields:
  "timers w' = timers w \<Longrightarrow> nextTimer w' = nextTimer w \<Longrightarrow>
   pendingRestart w' = pendingRestart w \<Longrightarrow> listeningTimeout w' = listeningTimeout w \<Longrightarrow>
   conversationTimeout w' = conversationTimeout w \<Longrightarrow> restart_inv w' = restart_inv w"
  by (simp add: restart_inv_def handles_ok_def)

lemma delay_inv:
  "restart_inv w \<Longrightarrow> cb \<noteq> RestartCb \<Longrightarrow> restart_inv (delay cb ms w)"
  by (simp add: restart_inv_def handles_ok_def delay_def setTimeout_def timers_ok_append
        handle_for_append restart_is_append)

lemma restart_handle_pos:
  "restart_inv w \<Longrightarrow> pendingRestart w = Some i \<Longrightarrow> 0 < i"
proof -
  assume a: "restart_inv w" "pendingRestart w = Some i"
  then have "i \<in> set (map t_id (filter (\<lambda>t. t_cb t = RestartCb) (timers w)))"
    by (simp add: restart_inv_def restart_is_def)
  then show ?thesis using a(1)
    by (auto simp add: restart_inv_def handles_ok_def timers_ok_def)
qed

lemma cancelPendingRestart_inv:
  assumes "restart_inv w"
  shows "restart_inv (cancelPendingRestart w)"
    and "pendingRestart (cancelPendingRestart w) = None"
proof -
  show "pendingRestart (cancelPendingRestart w) = None"
    using restart_handle_pos[OF assms]
    by (auto simp add: cancelPendingRestart_def clearTimeout_def split: option.splits)
  show "restart_inv (cancelPendingRestart w)"
  proof (cases "pendingRestart w")
    case None
    then show ?thesis using assms by (simp add: cancelPendingRestart_def)
  next
    case (Some i)
    with assms have "restart_is (Some i) (timers w)" by (simp add: restart_inv_def)
    from restart_is_remove_self[OF this] assms Some restart_handle_pos[OF assms Some]
    show ?thesis
      by (simp add: cancelPendingRestart_def clearTimeout_def restart_inv_def handles_ok_def
            timers_ok_filter handle_for_filter)
  qed
qed

lemma cancelPendingRestart_keeps:
  "isPaused (cancelPendingRestart w) = isPaused w"
  "isListening (cancelPendingRestart w) = isListening w"
  "nextTimer (cancelPendingRestart w) = nextTimer w"
  "clock (cancelPendingRestart w) = clock w"
  by (simp_all add: cancelPendingRestart_def clearTimeout_def split: option.splits)

lemma scheduleRestart_inv:
  assumes "restart_inv w"
  shows "restart_inv (scheduleRestart ms w)"
proof -
  let ?w1 = "cancelPendingRestart w"
  have 1: "restart_inv ?w1" and 2: "pendingRestart ?w1 = None"
    using cancelPendingRestart_inv[OF assms] by simp_all
  from 1 2 have "restart_is None (timers ?w1)" by (simp add: restart_inv_def)
  from restart_is_new[OF this] 1 show ?thesis
    by (simp add: scheduleRestart_def Let_def setTimeout_def restart_inv_def handles_ok_def
          timers_ok_append handle_for_append)
qed

lemma clearListeningTimeout_inv:
  assumes "restart_inv w"
  shows "restart_inv (clearListeningTimeout w)"
proof (cases "listeningTimeout w")
  case None
  then show ?thesis using assms by (simp add: clearListeningTimeout_def)
next
  case (Some i)
  with assms have "\<forall>t \<in> set (timers w). t_id t = i \<longrightarrow> t_cb t \<noteq> RestartCb"
    by (auto simp add: restart_inv_def handles_ok_def handle_for_def)
  from restart_is_remove_other[OF _ this, of "pendingRestart w"] assms Some
  show ?thesis
    by (auto simp add: clearListeningTimeout_def clearTimeout_def restart_inv_def handles_ok_def
          timers_ok_filter handle_for_filter)
qed

lemma clearConversationTimeout_inv:
  assumes "restart_inv w"
  shows "restart_inv (clearConversationTimeout w)"
proof (cases "conversationTimeout w")
  case None
  then show ?thesis using assms by (simp add: clearConversationTimeout_def)
next
  case (Some i)
  with assms have "\<forall>t \<in> set (timers w). t_id t = i \<longrightarrow> t_cb t \<noteq> RestartCb"
    by (auto simp add: restart_inv_def handles_ok_def handle_for_def)
  from restart_is_remove_other[OF _ this, of "pendingRestart w"] assms Some
  show ?thesis
    by (auto simp add: clearConversationTimeout_def clearTimeout_def restart_inv_def handles_ok_def
          timers_ok_filter handle_for_filter)
qed

lemma startListeningTimeout_inv:
  assumes "restart_inv w"
  shows "restart_inv (startListeningTimeout w)"
  using clearListeningTimeout_inv[OF assms]
  by (simp add: startListeningTimeout_def setTimeout_def restart_inv_def handles_ok_def
        timers_ok_append handle_for_append handle_for_new restart_is_append)

lemma startConversationTimeout_inv:
  assumes "restart_inv w"
  shows "restart_inv (startConversationTimeout w)"
  using clearConversationTimeout_inv[OF assms]
  by (simp add: startConversationTimeout_def setTimeout_def restart_inv_def handles_ok_def
        timers_ok_append handle_for_append handle_for_new restart_is_append)


lemma startWebSpeechDetection_inv:
  "restart_inv w \<Longrightarrow> startWebSpeechDetection env w = Inr w' \<Longrightarrow> restart_inv w'"
  "restart_inv w \<Longrightarrow> startWebSpeechDetection env w = Inl w' \<Longrightarrow> restart_inv w'"
  by (auto simp add: startWebSpeechDetection_def Let_def restart_inv_def handles_ok_def
        split: if_splits start_result.splits)

lemma startLocalDetection_inv: "restart_inv w \<Longrightarrow> restart_inv (startLocalDetection env w)"
  by (simp add: startLocalDetection_def restart_inv_def handles_ok_def)

lemma startWakeWordDetection_inv:
  assumes "restart_inv w"
  shows "restart_inv (startWakeWordDetection env w)"
proof (cases "startWebSpeechDetection env w")
  case (Inl w1)
  from startWebSpeechDetection_inv(2)[OF assms Inl]
  have 1: "restart_inv (w1\<lparr>consecutiveErrors := consecutiveErrors w1 + 1\<rparr>)"
    by (simp add: restart_inv_def handles_ok_def)
  have 2: "restart_inv (initLocalDetection (w1\<lparr>consecutiveErrors := consecutiveErrors w1 + 1\<rparr>))"
    using 1 by (simp add: initLocalDetection_def restart_inv_def handles_ok_def)
  show ?thesis
    using assms Inl 1 scheduleRestart_inv[OF 1] startLocalDetection_inv[OF 2]
      startLocalDetection_inv[OF assms]
    by (simp add: startWakeWordDetection_def Let_def)
next
  case (Inr w1)
  from startWebSpeechDetection_inv(1)[OF assms Inr] assms startLocalDetection_inv[OF assms] Inr
  show ?thesis by (simp add: startWakeWordDetection_def)
qed

lemma forceRestartRecognition_inv:
  assumes "restart_inv w"
  shows "restart_inv (forceRestartRecognition caller w)"
proof -
  from cancelPendingRestart_inv(1)[OF assms]
  have "restart_inv ((cancelPendingRestart w)\<lparr>isListening := False, isRestarting := False\<rparr>)"
    by (simp add: restart_inv_def handles_ok_def)
  then show ?thesis by (simp add: forceRestartRecognition_def Let_def delay_inv)
qed

lemma onStateChange_inv:
  assumes "restart_inv w"
  shows "restart_inv (onStateChange st w)"
proof -
  have "restart_inv (w\<lparr>isInConversation := False\<rparr>)"
    using assms by (simp add: restart_inv_def handles_ok_def)
  from this scheduleRestart_inv[OF this] assms show ?thesis
    by (simp add: onStateChange_def Let_def delay_inv)
qed

lemma stateSyncFired_inv: "restart_inv w \<Longrightarrow> restart_inv (stateSyncFired w)"
  by (simp add: stateSyncFired_def forceRestartRecognition_inv)

lemma appSetState_inv:
  assumes "restart_inv w"
  shows "restart_inv (appSetState st ctx w)"
proof -
  have "restart_inv (w\<lparr>app := a\<rparr>)" for a
    using assms by (simp add: restart_inv_def handles_ok_def)
  then show ?thesis by (simp add: appSetState_def Let_def onStateChange_inv)
qed

lemma conversationTimeoutFired_inv:
  assumes "restart_inv w"
  shows "restart_inv (conversationTimeoutFired w)"
proof -
  have "restart_inv (w\<lparr>isInConversation := False\<rparr>)"
    using assms by (simp add: restart_inv_def handles_ok_def)
  from this scheduleRestart_inv[OF this] assms show ?thesis
    by (simp add: conversationTimeoutFired_def Let_def delay_inv)
qed

lemma synthesisCancel_inv: "restart_inv w \<Longrightarrow> restart_inv (synthesisCancel w)"
  by (simp add: synthesisCancel_def restart_inv_def handles_ok_def)

lemma resolveSpeech_inv: "restart_inv w \<Longrightarrow> restart_inv (snd (resolveSpeech uid w))"
  by (simp add: resolveSpeech_def restart_inv_def handles_ok_def split: list.splits)

lemma afterCommandSpeak_inv:
  assumes "restart_inv w"
  shows "restart_inv (afterCommandSpeak w)"
proof -
  have "restart_inv (w\<lparr>isSpeaking := False\<rparr>)"
    using assms by (simp add: restart_inv_def handles_ok_def)
  then show ?thesis by (simp add: afterCommandSpeak_def Let_def delay_inv appSetState_inv)
qed

lemma set_isSpeaking_inv: "restart_inv w \<Longrightarrow> restart_inv (w\<lparr>isSpeaking := b\<rparr>)"
  by (simp add: restart_inv_def handles_ok_def)

lemma postTtsFired_inv: "restart_inv w \<Longrightarrow> restart_inv (postTtsFired w)"
  by (simp add: postTtsFired_def forceRestartRecognition_inv startConversationTimeout_inv
        set_isSpeaking_inv)

lemma forceRestartResumed_inv: "restart_inv w \<Longrightarrow> restart_inv (forceRestartResumed c env w)"
  by (simp add: forceRestartResumed_def Let_def startWakeWordDetection_inv
        startConversationTimeout_inv set_isSpeaking_inv split: force_caller.splits)

lemma afterLateSpeak_inv: "restart_inv w \<Longrightarrow> restart_inv (afterLateSpeak w)"
  by (simp add: afterLateSpeak_def Let_def appSetState_inv startConversationTimeout_inv
        set_isSpeaking_inv)

lemma runWaiter_inv: "restart_inv w \<Longrightarrow> restart_inv (runWaiter k w)"
  by (simp add: runWaiter_def afterCommandSpeak_inv afterLateSpeak_inv
        split: option.splits speak_waiter.splits)

lemma speak_inv:
  assumes "restart_inv w"
  shows "restart_inv (speak k w)"
proof -
  have "restart_inv (synthesisCancel (w\<lparr>currentSpeechResolve := c\<rparr>))" for c
    using assms by (simp add: synthesisCancel_def restart_inv_def handles_ok_def)
  then have "restart_inv ((synthesisCancel (w\<lparr>currentSpeechResolve := c\<rparr>))
               \<lparr>utterances := us, nextUtterance := n\<rparr>)" for c us n
    by (simp add: restart_inv_def handles_ok_def)
  then show ?thesis using assms by (simp add: speak_def Let_def runWaiter_inv)
qed

lemma utteranceDone_inv:
  assumes "restart_inv w"
  shows "restart_inv (utteranceDone uid w)"
proof -
  have "restart_inv (w\<lparr>currentSpeechResolve := None\<rparr>)"
    using assms by (simp add: restart_inv_def handles_ok_def)
  from resolveSpeech_inv[OF this, of uid]
  have "restart_inv ((snd (resolveSpeech uid (w\<lparr>currentSpeechResolve := None\<rparr>)))
           \<lparr>utterances := us\<rparr>)" for us
    by (simp add: restart_inv_def handles_ok_def)
  then show ?thesis using assms
    by (simp add: utteranceDone_def Let_def split_beta runWaiter_inv)
qed

lemma listeningTimeoutFired_inv: "restart_inv w \<Longrightarrow> restart_inv (listeningTimeoutFired w)"
  by (simp add: listeningTimeoutFired_def appSetState_inv speak_inv)

lemma interruptSpeaking_inv:
  assumes "restart_inv w"
  shows "restart_inv (interruptSpeaking w)"
proof -
  let ?w2 = "(if hasSynthesis w then synthesisCancel w else w)\<lparr>isSpeaking := False\<rparr>"
  have 2: "restart_inv ?w2"
    using assms by (simp add: synthesisCancel_def restart_inv_def handles_ok_def)
  let ?w3 = "case currentSpeechResolve ?w2 of
               None \<Rightarrow> ?w2
             | Some uid \<Rightarrow>
                 (let (k, w') = resolveSpeech uid ?w2
                  in w'\<lparr>currentSpeechResolve := None,
                        microtasks := microtasks w' @
                          (case k of None \<Rightarrow> [] | Some waiter \<Rightarrow> [waiter])\<rparr>)"
  have 3: "restart_inv ?w3"
  proof (cases "currentSpeechResolve ?w2")
    case None
    then show ?thesis using 2 by simp
  next
    case (Some uid)
    from resolveSpeech_inv[OF 2, of uid]
    have "restart_inv ((snd (resolveSpeech uid ?w2))\<lparr>currentSpeechResolve := None,
             microtasks := m\<rparr>)" for m
      by (simp add: restart_inv_def handles_ok_def)
    then show ?thesis using Some by (simp add: split_beta)
  qed
  have "interruptSpeaking w =
          delay InterruptResumeCb 300
            (appSetState ''listening'' [(''source'', VStr ''interrupt'')] ?w3)"
    by (simp add: interruptSpeaking_def Let_def)
  then show ?thesis
    using 3 by (simp add: delay_inv appSetState_inv)
qed

lemma drainMicrotasks_inv:
  assumes "restart_inv w"
  shows "restart_inv (drainMicrotasks w)"
proof -
  have "restart_inv v \<Longrightarrow> restart_inv (foldl (\<lambda>v k. runWaiter (Some k) v) v ks)" for v ks
    by (induction ks arbitrary: v) (simp_all add: runWaiter_inv)
  moreover have "restart_inv (w\<lparr>microtasks := []\<rparr>)"
    using assms by (simp add: restart_inv_def handles_ok_def)
  ultimately show ?thesis by (simp add: drainMicrotasks_def)
qed

lemma interruptResumed_inv:
  assumes "restart_inv w"
  shows "restart_inv (interruptResumed env w)"
proof -
  from cancelPendingRestart_inv(1)[OF assms]
  have 1: "restart_inv ((cancelPendingRestart w)
            \<lparr>isListening := False, isRestarting := False, isPaused := False\<rparr>)"
    by (simp add: restart_inv_def handles_ok_def)
  from 1 startWakeWordDetection_inv[OF 1] show ?thesis
    by (simp add: interruptResumed_def Let_def startConversationTimeout_inv)
qed

lemma onCommandReceived_inv:
  assumes "restart_inv w"
  shows "restart_inv (onCommandReceived t c w)"
proof -
  have 1: "restart_inv (clearConversationTimeout (clearListeningTimeout w))"
    using assms by (simp add: clearConversationTimeout_inv clearListeningTimeout_inv)
  then have "restart_inv ((clearConversationTimeout (clearListeningTimeout w))
               \<lparr>isInConversation := True, dispatched := d\<rparr>)" for d
    by (simp add: restart_inv_def handles_ok_def)
  from appSetState_inv[OF this]
  show ?thesis
    by (simp add: onCommandReceived_def Let_def restart_inv_def handles_ok_def)
qed

lemma commandResolved_inv:
  assumes "restart_inv w"
  shows "restart_inv (commandResolved n text w)"
proof -
  have "restart_inv (w\<lparr>awaitingBackend := a, isSpeaking := True\<rparr>)" for a
    using assms by (simp add: restart_inv_def handles_ok_def)
  then show ?thesis using assms
    by (simp add: commandResolved_def Let_def speak_inv appSetState_inv)
qed

lemma commandFailed_inv:
  assumes "restart_inv w"
  shows "restart_inv (commandFailed n msg w)"
proof -
  have "restart_inv (w\<lparr>awaitingBackend := a, isSpeaking := False\<rparr>)" for a
    using assms by (simp add: restart_inv_def handles_ok_def)
  then show ?thesis using assms
    by (simp add: commandFailed_def Let_def delay_inv appSetState_inv)
qed

lemma errorRecoveryFired_inv: "restart_inv w \<Longrightarrow> restart_inv (errorRecoveryFired w)"
  by (simp add: errorRecoveryFired_def startConversationTimeout_inv appSetState_inv)

lemma handleLateResponse_inv: "restart_inv w \<Longrightarrow> restart_inv (handleLateResponse text w)"
  by (simp add: handleLateResponse_def speak_inv set_isSpeaking_inv)

lemma set_flags_inv:
  "restart_inv w \<Longrightarrow> restart_inv (w\<lparr>isListening := b\<rparr>)"
  "restart_inv w \<Longrightarrow> restart_inv (w\<lparr>consecutiveErrors := n\<rparr>)"
  "restart_inv w \<Longrightarrow> restart_inv (w\<lparr>isPaused := b\<rparr>)"
  "restart_inv w \<Longrightarrow> restart_inv (w\<lparr>lastCommand := s\<rparr>)"
  "restart_inv w \<Longrightarrow> restart_inv (w\<lparr>useLocalDetection := b\<rparr>)"
  by (simp_all add: restart_inv_def handles_ok_def)

lemma onRecognitionStart_inv: "restart_inv w \<Longrightarrow> restart_inv (onRecognitionStart w)"
  by (simp add: onRecognitionStart_def restart_inv_def handles_ok_def)

lemma onRecognitionEnd_inv:
  assumes "restart_inv w"
  shows "restart_inv (onRecognitionEnd w)"
proof -
  have 1: "restart_inv (w\<lparr>isListening := False\<rparr>)" using assms by (rule set_flags_inv)
  show ?thesis
    using 1 scheduleRestart_inv[OF 1] by (simp add: onRecognitionEnd_def Let_def)
qed

lemma onRecognitionError_inv:
  assumes "restart_inv w"
  shows "restart_inv (onRecognitionError e w)"
proof -
  let ?w1 = "w\<lparr>consecutiveErrors := consecutiveErrors w + 1\<rparr>"
  have 1: "restart_inv ?w1" using assms by (rule set_flags_inv)
  have 2: "restart_inv (?w1\<lparr>consecutiveErrors := 0\<rparr>)" using 1 by (rule set_flags_inv)
  have 3: "restart_inv (initLocalDetection (?w1\<lparr>useLocalDetection := True\<rparr>))"
    using 1 by (simp add: initLocalDetection_def restart_inv_def handles_ok_def)
  show ?thesis
    using assms 3 scheduleRestart_inv[OF 1] scheduleRestart_inv[OF 2]
    by (simp add: onRecognitionError_def Let_def)
qed

lemma onSpeechStart_inv: "restart_inv w \<Longrightarrow> restart_inv (onSpeechStart w)"
  by (simp add: onSpeechStart_def set_flags_inv)

lemma onInterimResult_inv: "restart_inv w \<Longrightarrow> restart_inv (onInterimResult t w)"
  by (simp add: onInterimResult_def clearConversationTimeout_inv)

lemma onWakeWordDetected_inv: "restart_inv w \<Longrightarrow> restart_inv (onWakeWordDetected t w)"
  by (simp add: onWakeWordDetected_def Let_def delay_inv appSetState_inv)

lemma enterListeningFired_inv: "restart_inv w \<Longrightarrow> restart_inv (enterListeningFired s w)"
  by (simp add: enterListeningFired_def startListeningTimeout_inv appSetState_inv)

lemma handleRecognitionResult_inv:
  assumes "restart_inv w"
  shows "restart_inv (handleRecognitionResult t c f w)"
proof -
  have 1: "restart_inv (w\<lparr>consecutiveErrors := 0\<rparr>)" using assms by (rule set_flags_inv)
  have 2: "restart_inv (clearConversationTimeout w)"
    "restart_inv (clearConversationTimeout (w\<lparr>consecutiveErrors := 0\<rparr>))"
    using assms 1 by (simp_all add: clearConversationTimeout_inv)
  show ?thesis
    using assms 1 2
    by (simp add: handleRecognitionResult_def Let_def set_flags_inv delay_inv
          interruptSpeaking_inv onInterimResult_inv onWakeWordDetected_inv
          onCommandReceived_inv startConversationTimeout_inv)
qed

lemma stopWakeWordDetection_inv: "restart_inv w \<Longrightarrow> restart_inv (stopWakeWordDetection w)"
  by (simp add: stopWakeWordDetection_def Let_def restart_inv_def handles_ok_def)

lemma resumeWakeWordDetection_inv:
  assumes "restart_inv w"
  shows "restart_inv (resumeWakeWordDetection env w)"
proof -
  have 1: "restart_inv (w\<lparr>isPaused := False\<rparr>)" using assms by (rule set_flags_inv)
  from 1 startWakeWordDetection_inv[OF 1] show ?thesis
    by (simp add: resumeWakeWordDetection_def Let_def)
qed

text \<open>The session in which the callback of an expired timer starts.\<close>

lemma timer_removed_other:
  assumes inv: "restart_inv w" and t: "t \<in> set (timers w)" and cb: "t_cb t \<noteq> RestartCb"
  shows "restart_inv (w\<lparr>timers := filter (\<lambda>u. t_id u \<noteq> t_id t) (timers w), clock := c\<rparr>)"
proof -
  from inv have d: "distinct (map t_id (timers w))"
    by (simp add: restart_inv_def handles_ok_def timers_ok_def)
  have "\<forall>u \<in> set (timers w). t_id u = t_id t \<longrightarrow> t_cb u \<noteq> RestartCb"
  proof (intro ballI impI)
    fix u assume "u \<in> set (timers w)" "t_id u = t_id t"
    with d t have "u = t" by (meson distinct_map inj_onD)
    with cb show "t_cb u \<noteq> RestartCb" by simp
  qed
  from restart_is_remove_other[OF _ this, of "pendingRestart w"] inv show ?thesis
    by (simp add: restart_inv_def handles_ok_def timers_ok_filter handle_for_filter)
qed

lemma timer_removed_restart:
  assumes inv: "restart_inv w" and t: "t \<in> set (timers w)" and cb: "t_cb t = RestartCb"
  shows "restart_inv (w\<lparr>timers := filter (\<lambda>u. t_id u \<noteq> t_id t) (timers w), clock := c,
                         pendingRestart := None, isRestarting := False\<rparr>)"
proof -
  from t cb have "t_id t \<in> set (map t_id (filter (\<lambda>t. t_cb t = RestartCb) (timers w)))"
    by simp
  with inv have "restart_is (Some (t_id t)) (timers w)"
    by (cases "pendingRestart w") (auto simp add: restart_inv_def restart_is_def)
  from restart_is_remove_self[OF this] inv show ?thesis
    by (simp add: restart_inv_def handles_ok_def timers_ok_filter handle_for_filter)
qed

lemma restartTimerFired_after_removal:
  assumes inv: "restart_inv w" and t: "t \<in> set (timers w)" and cb: "t_cb t = RestartCb"
  shows "restart_inv (restartTimerFired env
           (w\<lparr>timers := filter (\<lambda>u. t_id u \<noteq> t_id t) (timers w), clock := c\<rparr>))"
  using timer_removed_restart[OF assms, of c]
        startWakeWordDetection_inv[OF timer_removed_restart[OF assms, of c], of env]
  by (simp add: restartTimerFired_def Let_def)

lemma fire_inv:
  "restart_inv w \<Longrightarrow> cb \<noteq> RestartCb \<Longrightarrow> restart_inv (fire cb env w)"
  by (cases cb)
     (simp_all add: fire_def listeningTimeoutFired_inv conversationTimeoutFired_inv
        appSetState_inv interruptResumed_inv forceRestartResumed_inv stateSyncFired_inv
        onCommandReceived_inv enterListeningFired_inv postTtsFired_inv errorRecoveryFired_inv)

lemma timerFired_inv:
  assumes "restart_inv w"
  shows "restart_inv (timerFired i env w)"
proof (cases "filter (\<lambda>t. t_id t = i) (timers w)")
  case Nil
  then show ?thesis using assms by (simp add: timerFired_def)
next
  case (Cons t ts)
  then have "t \<in> set (filter (\<lambda>t. t_id t = i) (timers w))" by simp
  then have t: "t \<in> set (timers w)" and i: "t_id t = i" by simp_all
  show ?thesis
  proof (cases "t_cb t = RestartCb")
    case True
    from restartTimerFired_after_removal[OF assms t True, of env "max (clock w) (t_due t)"]
    show ?thesis using Cons True i by (simp add: timerFired_def fire_def)
  next
    case False
    from fire_inv[OF timer_removed_other[OF assms t False] False, of env "max (clock w) (t_due t)"]
    show ?thesis using Cons i by (simp add: timerFired_def)
  qed
qed

lemma time_passes_inv: "restart_inv w \<Longrightarrow> restart_inv (w\<lparr>clock := c\<rparr>)"
  by (simp add: restart_inv_def handles_ok_def)

lemma handle_inv: "restart_inv w \<Longrightarrow> restart_inv (handle e w)"
  by (cases e)
     (simp_all add: time_passes_inv drainMicrotasks_inv handle_def onRecognitionStart_inv onRecognitionEnd_inv
        onRecognitionError_inv onSpeechStart_inv handleRecognitionResult_inv timerFired_inv
        utteranceDone_inv commandResolved_inv commandFailed_inv handleLateResponse_inv
        interruptSpeaking_inv stopWakeWordDetection_inv resumeWakeWordDetection_inv
        startWakeWordDetection_inv appSetState_inv)

lemma run_inv: "restart_inv w \<Longrightarrow> restart_inv (run es w)"
  by (induction es arbitrary: w) (simp_all add: handle_inv)

lemma newSession_inv: "restart_inv (newSession supported synth sm)"
  by (simp add: newSession_def restart_inv_def handles_ok_def timers_ok_def restart_is_def)

lemma restart_inv_at_most_one: "restart_inv w \<Longrightarrow> length (restartTimers w) \<le> 1"
proof -
  assume "restart_inv w"
  then have "length (map t_id (restartTimers w)) \<le> 1"
    by (simp add: restart_inv_def restart_is_def restartTimers_def split: option.splits)
  then show ?thesis by simp
qed

lemma scheduleRestart_timers:
  assumes "restart_inv w"
  shows "restartTimers (scheduleRestart ms w) =
           (if isPaused w then []
            else [\<lparr>t_id = nextTimer w, t_due = clock w + ms, t_cb = RestartCb\<rparr>])"
    and "pendingRestart (scheduleRestart ms w) = (if isPaused w then None else Some (nextTimer w))"
proof -
  let ?w1 = "cancelPendingRestart w"
  have 1: "restart_inv ?w1" and 2: "pendingRestart ?w1 = None"
    using cancelPendingRestart_inv[OF assms] by simp_all
  from 1 2 have "map t_id (filter (\<lambda>t. t_cb t = RestartCb) (timers ?w1)) = []"
    by (simp add: restart_inv_def restart_is_def)
  then have 3: "filter (\<lambda>t. t_cb t = RestartCb) (timers ?w1) = []" by simp
  show "restartTimers (scheduleRestart ms w) =
           (if isPaused w then []
            else [\<lparr>t_id = nextTimer w, t_due = clock w + ms, t_cb = RestartCb\<rparr>])"
    using 3 by (simp add: scheduleRestart_def Let_def setTimeout_def restartTimers_def
                  cancelPendingRestart_keeps)
  show "pendingRestart (scheduleRestart ms w) = (if isPaused w then None else Some (nextTimer w))"
    using 2 by (simp add: scheduleRestart_def Let_def setTimeout_def cancelPendingRestart_keeps)
qed

lemma filter_distinct_key:
  "distinct (map f xs) \<Longrightarrow> t \<in> set xs \<Longrightarrow> filter (\<lambda>u. f u = f t) xs = [t]"
proof (induction xs)
  case Nil
  then show ?case by simp
next
  case (Cons a as)
  show ?case
  proof (cases "a = t")
    case True
    with Cons.prems have "f t \<notin> f ` set as" by simp
    then have "\<forall>u \<in> set as. f u \<noteq> f t" by (metis imageI)
    then have "filter (\<lambda>u. f u = f t) as = []" by (simp add: filter_empty_conv)
    with True show ?thesis by simp
  next
    case False
    with Cons.prems have t: "t \<in> set as" and "f a \<noteq> f t" by auto
    with Cons.IH Cons.prems show ?thesis by simp
  qed
qed

lemma pending_restart_timer:
  assumes inv: "restart_inv w" and p: "pendingRestart w = Some i"
  shows "\<exists>t. filter (\<lambda>t. t_id t = i) (timers w) = [t] \<and> t_cb t = RestartCb"
proof -
  from inv p have "map t_id (filter (\<lambda>t. t_cb t = RestartCb) (timers w)) = [i]"
    by (simp add: restart_inv_def restart_is_def)
  then obtain t where ft: "filter (\<lambda>t. t_cb t = RestartCb) (timers w) = [t]" and i: "t_id t = i"
    by auto
  from ft have "t \<in> set (filter (\<lambda>t. t_cb t = RestartCb) (timers w))" by simp
  then have t: "t \<in> set (timers w)" "t_cb t = RestartCb" by simp_all
  from inv have d: "distinct (map t_id (timers w))"
    by (simp add: restart_inv_def handles_ok_def timers_ok_def)
  from filter_distinct_key[OF d t(1)] i t(2) show ?thesis by auto
qed

lemma restart_timer_fires:
  assumes inv: "restart_inv w" and p: "pendingRestart w = Some i"
  shows "\<exists>due. timerFired i env w =
           restartTimerFired env
             (w\<lparr>timers := filter (\<lambda>t. t_id t \<noteq> i) (timers w), clock := max (clock w) due\<rparr>)"
proof -
  from pending_restart_timer[OF inv p] obtain t
    where "filter (\<lambda>t. t_id t = i) (timers w) = [t]" "t_cb t = RestartCb" by blast
  then show ?thesis by (auto simp add: timerFired_def fire_def)
qed

text \<open>When the restart timer expires while paused or listening, nothing is started.\<close>

lemma restart_timer_rechecks:
  assumes inv: "restart_inv w" and p: "pendingRestart w = Some i"
    and blocked: "isPaused w \<or> isListening w"
  shows "recStartCalls (timerFired i env w) = recStartCalls w"
    and "localStarts (timerFired i env w) = localStarts w"
    and "isListening (timerFired i env w) = isListening w"
    and "pendingRestart (timerFired i env w) = None"
    and "restartTimers (timerFired i env w) = []"
proof -
  from restart_timer_fires[OF inv p, of env] obtain due where
    h: "timerFired i env w =
           restartTimerFired env
             (w\<lparr>timers := filter (\<lambda>t. t_id t \<noteq> i) (timers w), clock := max (clock w) due\<rparr>)"
    by blast
  from inv p have "restart_is (Some i) (timers w)" by (simp add: restart_inv_def)
  from restart_is_remove_self[OF this]
  have e: "filter (\<lambda>t. t_cb t = RestartCb) (filter (\<lambda>t. t_id t \<noteq> i) (timers w)) = []"
    by (simp add: restart_is_def)
  show "recStartCalls (timerFired i env w) = recStartCalls w"
    and "localStarts (timerFired i env w) = localStarts w"
    and "isListening (timerFired i env w) = isListening w"
    and "pendingRestart (timerFired i env w) = None"
    and "restartTimers (timerFired i env w) = []"
    using blocked e unfolding h
    by (auto simp add: restartTimerFired_def Let_def restartTimers_def)
qed

text \<open>Otherwise the callback goes on to start the wake word detection.\<close>

lemma restart_timer_starts:
  assumes inv: "restart_inv w" and p: "pendingRestart w = Some i"
    and free: "\<not> isPaused w" "\<not> isListening w"
  shows "\<exists>due. timerFired i env w =
           startWakeWordDetection env
             (w\<lparr>timers := filter (\<lambda>t. t_id t \<noteq> i) (timers w), clock := max (clock w) due,
                pendingRestart := None, isRestarting := False\<rparr>)"
proof -
  from restart_timer_fires[OF inv p, of env] obtain due where
    h: "timerFired i env w =
           restartTimerFired env
             (w\<lparr>timers := filter (\<lambda>t. t_id t \<noteq> i) (timers w), clock := max (clock w) due\<rparr>)"
    by blast
  show ?thesis unfolding h using free
    by (auto simp add: restartTimerFired_def Let_def)
qed

text \<open>
  Claim C1. In every session reached from the initial one by any sequence of events, at
  most one timer set by \<open>scheduleRestart\<close> is pending. A call of \<open>scheduleRestart\<close>
  leaves exactly the timer it sets (none when recognition is paused): a restart that was
  pending before is cancelled. When the pending restart timer expires while recognition
  is paused or already listening, neither the recognizer nor the local detection is
  started; otherwise the callback goes on to \<open>startWakeWordDetection\<close>.
\<close>

theorem at_most_one_restart_timer:
  assumes "w = run es (newSession supported synth sm)"
  shows "length (restartTimers w) \<le> 1 \<and>
     restartTimers (scheduleRestart ms w) =
       (if isPaused w then []
        else [\<lparr>t_id = nextTimer w, t_due = clock w + ms, t_cb = RestartCb\<rparr>]) \<and>
     (pendingRestart w = Some i \<and> (isPaused w \<or> isListening w) \<longrightarrow>
        recStartCalls (timerFired i env w) = recStartCalls w \<and>
        localStarts (timerFired i env w) = localStarts w \<and>
        restartTimers (timerFired i env w) = []) \<and>
     (pendingRestart w = Some i \<and> \<not> isPaused w \<and> \<not> isListening w \<longrightarrow>
        (\<exists>due. timerFired i env w =
           startWakeWordDetection env
             (w\<lparr>timers := filter (\<lambda>t. t_id t \<noteq> i) (timers w), clock := max (clock w) due,
                pendingRestart := None, isRestarting := False\<rparr>)))"
proof -
  have inv: "restart_inv w" unfolding assms by (rule run_inv) (rule newSession_inv)
  have 1: "length (restartTimers w) \<le> 1" using inv by (rule restart_inv_at_most_one)
  have 2: "restartTimers (scheduleRestart ms w) =
           (if isPaused w then []
            else [\<lparr>t_id = nextTimer w, t_due = clock w + ms, t_cb = RestartCb\<rparr>])"
    using inv by (rule scheduleRestart_timers)
  have 3: "pendingRestart w = Some i \<and> (isPaused w \<or> isListening w) \<longrightarrow>
           recStartCalls (timerFired i env w) = recStartCalls w \<and>
           localStarts (timerFired i env w) = localStarts w \<and>
           restartTimers (timerFired i env w) = []"
    using restart_timer_rechecks[OF inv] by blast
  have 4: "pendingRestart w = Some i \<and> \<not> isPaused w \<and> \<not> isListening w \<longrightarrow>
           (\<exists>due. timerFired i env w =
              startWakeWordDetection env
                (w\<lparr>timers := filter (\<lambda>t. t_id t \<noteq> i) (timers w), clock := max (clock w) due,
                   pendingRestart := None, isRestarting := False\<rparr>))"
    using restart_timer_starts[OF inv] by blast
  from 1 2 3 4 show ?thesis by (intro conjI)
qed

text \<open>
  Two recognizer end events in a row while Idle: the second restart replaces the first.
  A third call of \<open>scheduleRestart\<close> leaves only its own timer, and when that session's
  pending restart expires while the recognizer reports that it is listening, nothing is
  started.
\<close>

theorem at_most_one_restart_timer_witness:
  "length (restartTimers (run [RecEnd, RecEnd, RecStart]
      (newSession True True (newStateManager [] [])))) \<le> 1 \<and>
   restartTimers (scheduleRestart 100 (run [RecEnd, RecEnd, RecStart]
      (newSession True True (newStateManager [] [])))) =
     [\<lparr>t_id = 3, t_due = 100, t_cb = RestartCb\<rparr>] \<and>
   recStartCalls (timerFired 2 \<lparr>micPermission = True, startResult = Started\<rparr>
      (run [RecEnd, RecEnd, RecStart] (newSession True True (newStateManager [] [])))) = 0"
proof -
  let ?w = "run [RecEnd, RecEnd, RecStart] (newSession True True (newStateManager [] []))"
  have "let s = ?w in isPaused s = False \<and> nextTimer s = 3 \<and> clock s = 0 \<and>
          isListening s = True \<and> pendingRestart s = Some 2 \<and> recStartCalls s = 0"
    by code_simp
  then have e: "isPaused ?w = False" "nextTimer ?w = 3" "clock ?w = 0" "isListening ?w = True"
    "pendingRestart ?w = Some 2" "recStartCalls ?w = 0"
    unfolding Let_def by simp_all
  note th = at_most_one_restart_timer[OF refl, of "[RecEnd, RecEnd, RecStart]" True True
      "newStateManager [] []" 100 2 "\<lparr>micPermission = True, startResult = Started\<rparr>"]
  have 1: "length (restartTimers ?w) \<le> 1" using th by (rule conjunct1)
  have 2: "restartTimers (scheduleRestart 100 ?w) = [\<lparr>t_id = 3, t_due = 100, t_cb = RestartCb\<rparr>]"
    using th[THEN conjunct2, THEN conjunct1] unfolding e by simp
  have 3: "recStartCalls (timerFired 2 \<lparr>micPermission = True, startResult = Started\<rparr> ?w) = 0"
    using th[THEN conjunct2, THEN conjunct2, THEN conjunct1] unfolding e by simp
  from 1 2 3 show ?thesis by (intro conjI)
qed

section \<open>Local detection is permanent\<close>

named_theorems local_simps

lemma delay_local [local_simps]:
  "useLocalDetection (delay cb ms w) = useLocalDetection w"
  "recStartCalls (delay cb ms w) = recStartCalls w"
  by (simp_all add: delay_def setTimeout_def local_simps)

lemma clearTimeout_local [local_simps]:
  "useLocalDetection (clearTimeout i w) = useLocalDetection w"
  "recStartCalls (clearTimeout i w) = recStartCalls w"
  by (simp_all add: clearTimeout_def local_simps)

lemma cancelPendingRestart_local [local_simps]:
  "useLocalDetection (cancelPendingRestart w) = useLocalDetection w"
  "recStartCalls (cancelPendingRestart w) = recStartCalls w"
  by (simp_all add: cancelPendingRestart_def local_simps split: option.splits)

lemma scheduleRestart_local [local_simps]:
  "useLocalDetection (scheduleRestart ms w) = useLocalDetection w"
  "recStartCalls (scheduleRestart ms w) = recStartCalls w"
  by (simp_all add: scheduleRestart_def Let_def setTimeout_def local_simps)

lemma forceRestartRecognition_local [local_simps]:
  "useLocalDetection (forceRestartRecognition c w) = useLocalDetection w"
  "recStartCalls (forceRestartRecognition c w) = recStartCalls w"
  by (simp_all add: forceRestartRecognition_def Let_def local_simps)

lemma onStateChange_local [local_simps]:
  "useLocalDetection (onStateChange st w) = useLocalDetection w"
  "recStartCalls (onStateChange st w) = recStartCalls w"
  by (simp_all add: onStateChange_def Let_def local_simps)

lemma stateSyncFired_local [local_simps]:
  "useLocalDetection (stateSyncFired w) = useLocalDetection w"
  "recStartCalls (stateSyncFired w) = recStartCalls w"
  by (simp_all add: stateSyncFired_def local_simps)

lemma appSetState_local [local_simps]:
  "useLocalDetection (appSetState st ctx w) = useLocalDetection w"
  "recStartCalls (appSetState st ctx w) = recStartCalls w"
  by (simp_all add: appSetState_def Let_def local_simps)

lemma clearListeningTimeout_local [local_simps]:
  "useLocalDetection (clearListeningTimeout w) = useLocalDetection w"
  "recStartCalls (clearListeningTimeout w) = recStartCalls w"
  by (simp_all add: clearListeningTimeout_def local_simps split: option.splits)

lemma startListeningTimeout_local [local_simps]:
  "useLocalDetection (startListeningTimeout w) = useLocalDetection w"
  "recStartCalls (startListeningTimeout w) = recStartCalls w"
  by (simp_all add: startListeningTimeout_def setTimeout_def local_simps)

lemma clearConversationTimeout_local [local_simps]:
  "useLocalDetection (clearConversationTimeout w) = useLocalDetection w"
  "recStartCalls (clearConversationTimeout w) = recStartCalls w"
  by (simp_all add: clearConversationTimeout_def local_simps split: option.splits)

lemma startConversationTimeout_local [local_simps]:
  "useLocalDetection (startConversationTimeout w) = useLocalDetection w"
  "recStartCalls (startConversationTimeout w) = recStartCalls w"
  by (simp_all add: startConversationTimeout_def setTimeout_def local_simps)

lemma conversationTimeoutFired_local [local_simps]:
  "useLocalDetection (conversationTimeoutFired w) = useLocalDetection w"
  "recStartCalls (conversationTimeoutFired w) = recStartCalls w"
  by (simp_all add: conversationTimeoutFired_def Let_def local_simps)

lemma synthesisCancel_local [local_simps]:
  "useLocalDetection (synthesisCancel w) = useLocalDetection w"
  "recStartCalls (synthesisCancel w) = recStartCalls w"
  by (simp_all add: synthesisCancel_def local_simps)

lemma resolveSpeech_local [local_simps]:
  "useLocalDetection (snd (resolveSpeech uid w)) = useLocalDetection w"
  "recStartCalls (snd (resolveSpeech uid w)) = recStartCalls w"
  by (simp_all add: resolveSpeech_def local_simps split: list.splits)

lemma afterCommandSpeak_local [local_simps]:
  "useLocalDetection (afterCommandSpeak w) = useLocalDetection w"
  "recStartCalls (afterCommandSpeak w) = recStartCalls w"
  by (simp_all add: afterCommandSpeak_def Let_def local_simps)

lemma postTtsFired_local [local_simps]:
  "useLocalDetection (postTtsFired w) = useLocalDetection w"
  "recStartCalls (postTtsFired w) = recStartCalls w"
  by (simp_all add: postTtsFired_def local_simps)

lemma afterLateSpeak_local [local_simps]:
  "useLocalDetection (afterLateSpeak w) = useLocalDetection w"
  "recStartCalls (afterLateSpeak w) = recStartCalls w"
  by (simp_all add: afterLateSpeak_def Let_def local_simps)

lemma runWaiter_local [local_simps]:
  "useLocalDetection (runWaiter k w) = useLocalDetection w"
  "recStartCalls (runWaiter k w) = recStartCalls w"
  by (simp_all add: runWaiter_def local_simps split: option.splits speak_waiter.splits)

lemma speak_local [local_simps]:
  "useLocalDetection (speak k w) = useLocalDetection w"
  "recStartCalls (speak k w) = recStartCalls w"
  by (simp_all add: speak_def Let_def local_simps)

lemma utteranceDone_local [local_simps]:
  "useLocalDetection (utteranceDone uid w) = useLocalDetection w"
  "recStartCalls (utteranceDone uid w) = recStartCalls w"
  by (simp_all add: utteranceDone_def Let_def split_beta local_simps)

lemma listeningTimeoutFired_local [local_simps]:
  "useLocalDetection (listeningTimeoutFired w) = useLocalDetection w"
  "recStartCalls (listeningTimeoutFired w) = recStartCalls w"
  by (simp_all add: listeningTimeoutFired_def local_simps)

lemma interruptSpeaking_local [local_simps]:
  "useLocalDetection (interruptSpeaking w) = useLocalDetection w"
  "recStartCalls (interruptSpeaking w) = recStartCalls w"
  by (simp_all add: interruptSpeaking_def Let_def split_beta local_simps split: option.splits)

lemma onCommandReceived_local [local_simps]:
  "useLocalDetection (onCommandReceived t c w) = useLocalDetection w"
  "recStartCalls (onCommandReceived t c w) = recStartCalls w"
  by (simp_all add: onCommandReceived_def Let_def local_simps)

lemma commandResolved_local [local_simps]:
  "useLocalDetection (commandResolved n text w) = useLocalDetection w"
  "recStartCalls (commandResolved n text w) = recStartCalls w"
  by (simp_all add: commandResolved_def Let_def local_simps)

lemma commandFailed_local [local_simps]:
  "useLocalDetection (commandFailed n msg w) = useLocalDetection w"
  "recStartCalls (commandFailed n msg w) = recStartCalls w"
  by (simp_all add: commandFailed_def Let_def local_simps)

lemma errorRecoveryFired_local [local_simps]:
  "useLocalDetection (errorRecoveryFired w) = useLocalDetection w"
  "recStartCalls (errorRecoveryFired w) = recStartCalls w"
  by (simp_all add: errorRecoveryFired_def local_simps)

lemma handleLateResponse_local [local_simps]:
  "useLocalDetection (handleLateResponse text w) = useLocalDetection w"
  "recStartCalls (handleLateResponse text w) = recStartCalls w"
  by (simp_all add: handleLateResponse_def local_simps)

lemma onRecognitionStart_local [local_simps]:
  "useLocalDetection (onRecognitionStart w) = useLocalDetection w"
  "recStartCalls (onRecognitionStart w) = recStartCalls w"
  by (simp_all add: onRecognitionStart_def local_simps)

lemma onRecognitionEnd_local [local_simps]:
  "useLocalDetection (onRecognitionEnd w) = useLocalDetection w"
  "recStartCalls (onRecognitionEnd w) = recStartCalls w"
  by (simp_all add: onRecognitionEnd_def Let_def local_simps)

lemma onSpeechStart_local [local_simps]:
  "useLocalDetection (onSpeechStart w) = useLocalDetection w"
  "recStartCalls (onSpeechStart w) = recStartCalls w"
  by (simp_all add: onSpeechStart_def local_simps)

lemma onInterimResult_local [local_simps]:
  "useLocalDetection (onInterimResult t w) = useLocalDetection w"
  "recStartCalls (onInterimResult t w) = recStartCalls w"
  by (simp_all add: onInterimResult_def local_simps)

lemma onWakeWordDetected_local [local_simps]:
  "useLocalDetection (onWakeWordDetected t w) = useLocalDetection w"
  "recStartCalls (onWakeWordDetected t w) = recStartCalls w"
  by (simp_all add: onWakeWordDetected_def Let_def local_simps)

lemma enterListeningFired_local [local_simps]:
  "useLocalDetection (enterListeningFired s w) = useLocalDetection w"
  "recStartCalls (enterListeningFired s w) = recStartCalls w"
  by (simp_all add: enterListeningFired_def local_simps)

lemma handleRecognitionResult_local [local_simps]:
  "useLocalDetection (handleRecognitionResult t c f w) = useLocalDetection w"
  "recStartCalls (handleRecognitionResult t c f w) = recStartCalls w"
  by (simp_all add: handleRecognitionResult_def Let_def local_simps)

lemma stopWakeWordDetection_local [local_simps]:
  "useLocalDetection (stopWakeWordDetection w) = useLocalDetection w"
  "recStartCalls (stopWakeWordDetection w) = recStartCalls w"
  by (simp_all add: stopWakeWordDetection_def Let_def local_simps)


lemma drainMicrotasks_local [local_simps]:
  "useLocalDetection (drainMicrotasks w) = useLocalDetection w"
  "recStartCalls (drainMicrotasks w) = recStartCalls w"
proof -
  have "useLocalDetection (foldl (\<lambda>v k. runWaiter (Some k) v) v ks) = useLocalDetection v
      \<and> recStartCalls (foldl (\<lambda>v k. runWaiter (Some k) v) v ks) = recStartCalls v" for v ks
    by (induction ks arbitrary: v) (simp_all add: local_simps)
  then show "useLocalDetection (drainMicrotasks w) = useLocalDetection w"
    "recStartCalls (drainMicrotasks w) = recStartCalls w"
    by (simp_all add: drainMicrotasks_def)
qed

text \<open>In local mode the wake word detection never reaches the recognizer.\<close>

lemma startWakeWordDetection_local:
  assumes "useLocalDetection w"
  shows "useLocalDetection (startWakeWordDetection env w)"
    and "recStartCalls (startWakeWordDetection env w) = recStartCalls w"
  using assms by (simp_all add: startWakeWordDetection_def startLocalDetection_def)

lemma onRecognitionError_local:
  assumes "useLocalDetection w"
  shows "useLocalDetection (onRecognitionError e w)"
    and "recStartCalls (onRecognitionError e w) = recStartCalls w"
  using assms by (simp_all add: onRecognitionError_def Let_def initLocalDetection_def local_simps)

lemma fire_local:
  assumes "useLocalDetection w"
  shows "useLocalDetection (fire cb env w)"
    and "recStartCalls (fire cb env w) = recStartCalls w"
  using assms
  by (cases cb; simp add: fire_def restartTimerFired_def interruptResumed_def
        forceRestartResumed_def Let_def local_simps startWakeWordDetection_local
        split: force_caller.splits)+

lemma timerFired_local:
  assumes "useLocalDetection w"
  shows "useLocalDetection (timerFired i env w)"
    and "recStartCalls (timerFired i env w) = recStartCalls w"
  using assms by (simp_all add: timerFired_def fire_local split: list.splits)

lemma handle_local:
  assumes "useLocalDetection w"
  shows "useLocalDetection (handle e w)"
    and "recStartCalls (handle e w) = recStartCalls w"
  using assms
  by (cases e; simp add: handle_def local_simps timerFired_local onRecognitionError_local
        startWakeWordDetection_local resumeWakeWordDetection_def Let_def)+

lemma run_local:
  "useLocalDetection w \<Longrightarrow>
   useLocalDetection (run es w) \<and> recStartCalls (run es w) = recStartCalls w"
  by (induction es arbitrary: w) (simp_all add: handle_local)

lemma two_network_errors:
  assumes "currentState (app w) \<notin> set [''thinking'', ''speaking'']"
  shows "useLocalDetection (onRecognitionError ''network'' (onRecognitionError ''network'' w))"
proof -
  have a: "app (onRecognitionError ''network'' w) = app w"
    by (simp add: onRecognitionError_def Let_def initLocalDetection_def scheduleRestart_def
          setTimeout_def cancelPendingRestart_def clearTimeout_def split: option.splits)
  have c: "consecutiveErrors (onRecognitionError ''network'' w) \<ge> 1"
    using assms
    by (simp add: onRecognitionError_def Let_def initLocalDetection_def scheduleRestart_def
          setTimeout_def cancelPendingRestart_def clearTimeout_def getCurrentState_def
          split: option.splits)
  show ?thesis
    using assms c unfolding onRecognitionError_def[of _ "onRecognitionError ''network'' w"] a
    by (simp add: Let_def initLocalDetection_def getCurrentState_def)
qed

section \<open>Microtasks do not outlive a handler\<close>

named_theorems micro_simps

lemma delay_micro [micro_simps]: "microtasks (delay cb ms w) = microtasks w"
  by (simp add: delay_def setTimeout_def micro_simps)

lemma clearTimeout_micro [micro_simps]: "microtasks (clearTimeout i w) = microtasks w"
  by (simp add: clearTimeout_def micro_simps)

lemma cancelPendingRestart_micro [micro_simps]: "microtasks (cancelPendingRestart w) = microtasks w"
  by (simp add: cancelPendingRestart_def micro_simps split: option.splits)

lemma scheduleRestart_micro [micro_simps]: "microtasks (scheduleRestart ms w) = microtasks w"
  by (simp add: scheduleRestart_def Let_def setTimeout_def micro_simps)

lemma startLocalDetection_micro [micro_simps]: "microtasks (startLocalDetection env w) = microtasks w"
  by (simp add: startLocalDetection_def micro_simps)

lemma startWakeWordDetection_micro [micro_simps]:
  "microtasks (startWakeWordDetection env w) = microtasks w"
  by (auto simp add: startWakeWordDetection_def startWebSpeechDetection_def Let_def
        initLocalDetection_def micro_simps split: sum.splits start_result.splits if_splits)

lemma restartTimerFired_micro [micro_simps]: "microtasks (restartTimerFired env w) = microtasks w"
  by (simp add: restartTimerFired_def Let_def micro_simps)

lemma forceRestartRecognition_micro [micro_simps]: "microtasks (forceRestartRecognition c w) = microtasks w"
  by (simp add: forceRestartRecognition_def Let_def micro_simps)

lemma onStateChange_micro [micro_simps]: "microtasks (onStateChange st w) = microtasks w"
  by (simp add: onStateChange_def Let_def micro_simps)

lemma stateSyncFired_micro [micro_simps]: "microtasks (stateSyncFired w) = microtasks w"
  by (simp add: stateSyncFired_def micro_simps)

lemma appSetState_micro [micro_simps]: "microtasks (appSetState st ctx w) = microtasks w"
  by (simp add: appSetState_def Let_def micro_simps)

lemma clearListeningTimeout_micro [micro_simps]: "microtasks (clearListeningTimeout w) = microtasks w"
  by (simp add: clearListeningTimeout_def micro_simps split: option.splits)

lemma startListeningTimeout_micro [micro_simps]: "microtasks (startListeningTimeout w) = microtasks w"
  by (simp add: startListeningTimeout_def setTimeout_def micro_simps)

lemma clearConversationTimeout_micro [micro_simps]: "microtasks (clearConversationTimeout w) = microtasks w"
  by (simp add: clearConversationTimeout_def micro_simps split: option.splits)

lemma startConversationTimeout_micro [micro_simps]: "microtasks (startConversationTimeout w) = microtasks w"
  by (simp add: startConversationTimeout_def setTimeout_def micro_simps)

lemma conversationTimeoutFired_micro [micro_simps]: "microtasks (conversationTimeoutFired w) = microtasks w"
  by (simp add: conversationTimeoutFired_def Let_def micro_simps)

lemma synthesisCancel_micro [micro_simps]: "microtasks (synthesisCancel w) = microtasks w"
  by (simp add: synthesisCancel_def micro_simps)

lemma resolveSpeech_micro [micro_simps]: "microtasks (snd (resolveSpeech uid w)) = microtasks w"
  by (simp add: resolveSpeech_def micro_simps split: list.splits)

lemma afterCommandSpeak_micro [micro_simps]: "microtasks (afterCommandSpeak w) = microtasks w"
  by (simp add: afterCommandSpeak_def Let_def micro_simps)

lemma postTtsFired_micro [micro_simps]: "microtasks (postTtsFired w) = microtasks w"
  by (simp add: postTtsFired_def micro_simps)

lemma forceRestartResumed_micro [micro_simps]: "microtasks (forceRestartResumed c env w) = microtasks w"
  by (simp add: forceRestartResumed_def Let_def micro_simps split: force_caller.splits)

lemma afterLateSpeak_micro [micro_simps]: "microtasks (afterLateSpeak w) = microtasks w"
  by (simp add: afterLateSpeak_def Let_def micro_simps)

lemma runWaiter_micro [micro_simps]: "microtasks (runWaiter k w) = microtasks w"
  by (simp add: runWaiter_def micro_simps split: option.splits speak_waiter.splits)

lemma speak_micro [micro_simps]: "microtasks (speak k w) = microtasks w"
  by (simp add: speak_def Let_def micro_simps)

lemma utteranceDone_micro [micro_simps]: "microtasks (utteranceDone uid w) = microtasks w"
  by (simp add: utteranceDone_def Let_def split_beta micro_simps)

lemma listeningTimeoutFired_micro [micro_simps]: "microtasks (listeningTimeoutFired w) = microtasks w"
  by (simp add: listeningTimeoutFired_def micro_simps)

lemma interruptResumed_micro [micro_simps]: "microtasks (interruptResumed env w) = microtasks w"
  by (simp add: interruptResumed_def Let_def micro_simps)

lemma onCommandReceived_micro [micro_simps]: "microtasks (onCommandReceived t c w) = microtasks w"
  by (simp add: onCommandReceived_def Let_def micro_simps)

lemma commandResolved_micro [micro_simps]: "microtasks (commandResolved n text w) = microtasks w"
  by (simp add: commandResolved_def Let_def micro_simps)

lemma commandFailed_micro [micro_simps]: "microtasks (commandFailed n msg w) = microtasks w"
  by (simp add: commandFailed_def Let_def micro_simps)

lemma errorRecoveryFired_micro [micro_simps]: "microtasks (errorRecoveryFired w) = microtasks w"
  by (simp add: errorRecoveryFired_def micro_simps)

lemma handleLateResponse_micro [micro_simps]: "microtasks (handleLateResponse text w) = microtasks w"
  by (simp add: handleLateResponse_def micro_simps)

lemma onRecognitionStart_micro [micro_simps]: "microtasks (onRecognitionStart w) = microtasks w"
  by (simp add: onRecognitionStart_def micro_simps)

lemma onRecognitionEnd_micro [micro_simps]: "microtasks (onRecognitionEnd w) = microtasks w"
  by (simp add: onRecognitionEnd_def Let_def micro_simps)

lemma onRecognitionError_micro [micro_simps]: "microtasks (onRecognitionError e w) = microtasks w"
  by (simp add: onRecognitionError_def Let_def initLocalDetection_def micro_simps)

lemma onSpeechStart_micro [micro_simps]: "microtasks (onSpeechStart w) = microtasks w"
  by (simp add: onSpeechStart_def micro_simps)

lemma onInterimResult_micro [micro_simps]: "microtasks (onInterimResult t w) = microtasks w"
  by (simp add: onInterimResult_def micro_simps)

lemma onWakeWordDetected_micro [micro_simps]: "microtasks (onWakeWordDetected t w) = microtasks w"
  by (simp add: onWakeWordDetected_def Let_def micro_simps)

lemma enterListeningFired_micro [micro_simps]: "microtasks (enterListeningFired s w) = microtasks w"
  by (simp add: enterListeningFired_def micro_simps)

lemma stopWakeWordDetection_micro [micro_simps]: "microtasks (stopWakeWordDetection w) = microtasks w"
  by (simp add: stopWakeWordDetection_def Let_def micro_simps)

lemma resumeWakeWordDetection_micro [micro_simps]: "microtasks (resumeWakeWordDetection env w) = microtasks w"
  by (simp add: resumeWakeWordDetection_def Let_def micro_simps)

lemma fire_micro [micro_simps]: "microtasks (fire cb env w) = microtasks w"
  by (simp add: fire_def micro_simps split: timer_callback.splits)


lemma drainMicrotasks_micro [micro_simps]: "microtasks (drainMicrotasks w) = []"
proof -
  have "microtasks (foldl (\<lambda>v k. runWaiter (Some k) v) v ks) = microtasks v" for v ks
    by (induction ks arbitrary: v) (simp_all add: micro_simps)
  then show ?thesis by (simp add: drainMicrotasks_def)
qed

lemma handle_micro [micro_simps]: "microtasks (handle e w) = []"
  by (simp add: handle_def micro_simps)

lemma run_micro: "microtasks w = [] \<Longrightarrow> microtasks (run es w) = []"
  by (induction es arbitrary: w) (simp_all add: micro_simps)

lemma reachable_micro: "microtasks (run es (newSession supported synth sm)) = []"
  by (rule run_micro) (simp add: newSession_def)

lemma drainMicrotasks_empty: "microtasks w = [] \<Longrightarrow> drainMicrotasks w = w"
  by (cases w) (simp add: drainMicrotasks_def)

section \<open>Restart after a recognizer end event\<close>

lemma onRecognitionEnd_restart:
  assumes inv: "restart_inv w" and "\<not> isPaused w"
    and "isSpeaking w \<or> (\<not> useLocalDetection w \<and> currentState (app w) \<in> set [''idle'', ''waking'', ''listening''])"
  shows "restartTimers (onRecognitionEnd w) =
           [\<lparr>t_id = nextTimer w,
             t_due = clock w + (if currentState (app w) = ''speaking'' \<or> isSpeaking w
                                   \<or> currentState (app w) = ''listening'' then 100 else 500),
             t_cb = RestartCb\<rparr>]"
    and "restartAttempts (onRecognitionEnd w) = restartAttempts w + 1"
proof -
  have 1: "restart_inv (w\<lparr>isListening := False\<rparr>)" using inv by (rule set_flags_inv)
  show "restartTimers (onRecognitionEnd w) =
           [\<lparr>t_id = nextTimer w,
             t_due = clock w + (if currentState (app w) = ''speaking'' \<or> isSpeaking w
                                   \<or> currentState (app w) = ''listening'' then 100 else 500),
             t_cb = RestartCb\<rparr>]"
    using assms(2,3) scheduleRestart_timers(1)[OF 1]
    by (auto simp add: onRecognitionEnd_def Let_def getCurrentState_def)
  show "restartAttempts (onRecognitionEnd w) = restartAttempts w + 1"
    using assms(2,3)
    by (auto simp add: onRecognitionEnd_def Let_def getCurrentState_def scheduleRestart_def
          setTimeout_def cancelPendingRestart_def clearTimeout_def split: option.splits)
qed

lemma onRecognitionEnd_no_restart:
  assumes "\<not> isSpeaking w" and "currentState (app w) \<in> set [''error'', ''thinking'']"
  shows "onRecognitionEnd w = w\<lparr>isListening := False\<rparr>"
  using assms by (auto simp add: onRecognitionEnd_def Let_def getCurrentState_def)

text \<open>
  Claim C3, as the code has it. A recognizer end event while unpaused, not in local
  detection and with the \<open>isSpeaking\<close> flag clear: in Idle, Waking and Listening exactly
  one restart timer is pending afterwards (100 ms in Listening, 500 ms otherwise; a
  restart pending before is replaced), and the attempt counter grows by one. In Error
  and Thinking no restart is scheduled: only \<open>isListening\<close> is cleared.
\<close>

theorem recognition_end_restart:
  assumes "w = run es (newSession supported synth sm)"
    and "\<not> isPaused w" and "\<not> useLocalDetection w" and "\<not> isSpeaking w"
  shows "(currentState (app w) \<in> set [''idle'', ''waking'', ''listening''] \<longrightarrow>
            restartTimers (onRecognitionEnd w) =
              [\<lparr>t_id = nextTimer w,
                t_due = clock w + (if currentState (app w) = ''listening'' then 100 else 500),
                t_cb = RestartCb\<rparr>] \<and>
            restartAttempts (onRecognitionEnd w) = restartAttempts w + 1) \<and>
         (currentState (app w) \<in> set [''error'', ''thinking''] \<longrightarrow>
            onRecognitionEnd w = w\<lparr>isListening := False\<rparr>)"
proof -
  have inv: "restart_inv w" unfolding assms(1) by (rule run_inv) (rule newSession_inv)
  have 1: "restartTimers (onRecognitionEnd w) =
              [\<lparr>t_id = nextTimer w,
                t_due = clock w + (if currentState (app w) = ''listening'' then 100 else 500),
                t_cb = RestartCb\<rparr>] \<and>
            restartAttempts (onRecognitionEnd w) = restartAttempts w + 1"
    if s: "currentState (app w) \<in> set [''idle'', ''waking'', ''listening'']"
  proof -
    from s have ns: "currentState (app w) \<noteq> ''speaking''" by auto
    from s assms(3) have c: "isSpeaking w \<or> (\<not> useLocalDetection w \<and>
        currentState (app w) \<in> set [''idle'', ''waking'', ''listening''])" by simp
    from onRecognitionEnd_restart[OF inv assms(2) c] ns assms(4) show ?thesis by simp
  qed
  have 2: "onRecognitionEnd w = w\<lparr>isListening := False\<rparr>"
    if "currentState (app w) \<in> set [''error'', ''thinking'']"
    using onRecognitionEnd_no_restart[OF assms(4) that] .
  from 1 2 show ?thesis by blast
qed

theorem recognition_end_restart_witness:
  "restartTimers (onRecognitionEnd (run [CallStartWakeWordDetection env_ok, RecStart] fresh_session))
     = [\<lparr>t_id = 1, t_due = 500, t_cb = RestartCb\<rparr>] \<and>
   restartAttempts (onRecognitionEnd (run [CallStartWakeWordDetection env_ok, RecStart] fresh_session)) = 1"
proof -
  let ?w = "run [CallStartWakeWordDetection env_ok, RecStart] fresh_session"
  have r: "?w = run [CallStartWakeWordDetection env_ok, RecStart]
                  (newSession True True (newStateManager [] []))"
    by (simp only: fresh_session_def)
  have "let s = ?w in \<not> isPaused s \<and> \<not> useLocalDetection s \<and> \<not> isSpeaking s \<and>
          currentState (app s) = ''idle'' \<and> nextTimer s = 1 \<and> clock s = 0 \<and>
          restartAttempts s = 0"
    by code_simp
  then have e: "\<not> isPaused ?w" "\<not> useLocalDetection ?w" "\<not> isSpeaking ?w"
    "currentState (app ?w) = ''idle''" "nextTimer ?w = 1" "clock ?w = 0" "restartAttempts ?w = 0"
    unfolding Let_def by simp_all
  note th = recognition_end_restart[OF r e(1) e(2) e(3)]
  have i: "currentState (app ?w) \<in> set [''idle'', ''waking'', ''listening'']"
    unfolding e by simp
  from th[THEN conjunct1, rule_format, OF i] show ?thesis unfolding e by simp
qed

text \<open>
  The claim as written covers every state but Speaking. The recognizer ends while the
  assistant is Thinking, unpaused and not in local detection: no restart is scheduled.
\<close>

theorem recognition_end_thinking_counterexample:
  "currentState (app thinking_session) = ''thinking'' \<and>
   \<not> isPaused thinking_session \<and> \<not> useLocalDetection thinking_session \<and>
   restartTimers (handle RecEnd thinking_session) = [] \<and>
   restartAttempts (handle RecEnd thinking_session) = restartAttempts thinking_session"
  by code_simp

lemma network_error_twice:
  assumes m: "microtasks w = []"
    and s: "currentState (app w) \<notin> set [''thinking'', ''speaking'']"
  shows "useLocalDetection (run [RecError ''network'', RecError ''network''] w)"
proof -
  have 1: "handle (RecError ''network'') w = onRecognitionError ''network'' w"
    using m by (simp add: handle_def drainMicrotasks_empty micro_simps)
  have 2: "handle (RecError ''network'') (onRecognitionError ''network'' w)
             = onRecognitionError ''network'' (onRecognitionError ''network'' w)"
    using m by (simp add: handle_def drainMicrotasks_empty micro_simps)
  show ?thesis using two_network_errors[OF s] by (simp add: 1 2)
qed

text \<open>
  Claim C5, as the code has it. Network errors that arrive while the state machine is
  neither Thinking nor Speaking are counted, and the second consecutive one switches the
  supervisor to local detection, so after three it has switched. From a session in local
  detection no sequence of events leaves local detection, and none calls
  \<open>recognition.start()\<close> again: restarts that are still scheduled start the local
  detector.
\<close>

theorem network_errors_local_fallback:
  assumes "w = run es (newSession supported synth sm)"
  shows "(currentState (app w) \<notin> set [''thinking'', ''speaking''] \<longrightarrow>
            useLocalDetection (run [RecError ''network'', RecError ''network''] w) \<and>
            useLocalDetection
              (run [RecError ''network'', RecError ''network'', RecError ''network''] w)) \<and>
         (useLocalDetection w \<longrightarrow>
            useLocalDetection (run later w) \<and> recStartCalls (run later w) = recStartCalls w)"
proof -
  have m: "microtasks w = []" unfolding assms by (rule reachable_micro)
  have 1: "useLocalDetection (run [RecError ''network'', RecError ''network''] w) \<and>
           useLocalDetection
             (run [RecError ''network'', RecError ''network'', RecError ''network''] w)"
    if s: "currentState (app w) \<notin> set [''thinking'', ''speaking'']"
  proof -
    have a: "useLocalDetection (run [RecError ''network'', RecError ''network''] w)"
      using m s by (rule network_error_twice)
    have "run [RecError ''network'', RecError ''network'', RecError ''network''] w
            = handle (RecError ''network'') (run [RecError ''network'', RecError ''network''] w)"
      by simp
    with handle_local(1)[OF a] a show ?thesis by simp
  qed
  have 2: "useLocalDetection (run later w) \<and> recStartCalls (run later w) = recStartCalls w"
    if "useLocalDetection w"
    using that by (rule run_local)
  from 1 2 show ?thesis by blast
qed

theorem network_errors_local_fallback_witness:
  "useLocalDetection (run [RecError ''network'', RecError ''network'', RecError ''network'']
       (run [CallStartWakeWordDetection env_ok, RecStart] fresh_session)) \<and>
   recStartCalls (run [RecEnd, RecError ''no-speech'', TimerFired 1 env_ok]
       (run [RecError ''network'', RecError ''network'']
         (run [CallStartWakeWordDetection env_ok, RecStart] fresh_session))) = 1"
proof -
  let ?w = "run [CallStartWakeWordDetection env_ok, RecStart] fresh_session"
  let ?v = "run [RecError ''network'', RecError ''network''] ?w"
  have r: "?w = run [CallStartWakeWordDetection env_ok, RecStart]
                  (newSession True True (newStateManager [] []))"
    by (simp only: fresh_session_def)
  have rv: "?v = run ([CallStartWakeWordDetection env_ok, RecStart] @
                      [RecError ''network'', RecError ''network''])
                  (newSession True True (newStateManager [] []))"
    by (simp add: fresh_session_def)
  have e1: "currentState (app ?w) \<notin> set [''thinking'', ''speaking'']"
    by code_simp
  have "let s = ?v in useLocalDetection s \<and> recStartCalls s = 1"
    by code_simp
  then have e: "useLocalDetection ?v" "recStartCalls ?v = 1"
    unfolding Let_def by simp_all
  from network_errors_local_fallback[OF r, THEN conjunct1, rule_format, OF e1]
  have 1: "useLocalDetection (run [RecError ''network'', RecError ''network'', RecError ''network''] ?w)"
    by (rule conjunct2)
  from network_errors_local_fallback[OF rv, THEN conjunct2, rule_format, OF e(1),
      of "[RecEnd, RecError ''no-speech'', TimerFired 1 env_ok]"]
  have 2: "recStartCalls (run [RecEnd, RecError ''no-speech'', TimerFired 1 env_ok] ?v) = 1"
    unfolding e(2) by (rule conjunct2)
  from 1 2 show ?thesis by (intro conjI)
qed

text \<open>
  The claim as written holds for every unpaused session. While the assistant is Speaking
  the error handler returns at once: three network errors leave the primary recognizer
  in use, and the next end event restarts it.
\<close>

theorem network_errors_speaking_counterexample:
  "currentState (app speaking_session) = ''speaking'' \<and> \<not> isPaused speaking_session \<and>
   \<not> useLocalDetection
       (run [RecError ''network'', RecError ''network'', RecError ''network''] speaking_session) \<and>
   recStartCalls speaking_session = 1 \<and>
   recStartCalls
     (run [RecError ''network'', RecError ''network'', RecError ''network'', RecEnd,
           TimerFired 2 env_ok] speaking_session) = 2"
  by code_simp

section \<open>Interrupting the speech twice\<close>




named_theorems speech_simps

lemma delay_speech [speech_simps]:
  "app (delay cb ms w) = app w"
  "isSpeaking (delay cb ms w) = isSpeaking w"
  "utterances (delay cb ms w) = utterances w"
  "currentSpeechResolve (delay cb ms w) = currentSpeechResolve w"
  "hasSynthesis (delay cb ms w) = hasSynthesis w"
  "isPaused (delay cb ms w) = isPaused w"
  by (simp_all add: delay_def setTimeout_def speech_simps)

lemma clearTimeout_speech [speech_simps]:
  "app (clearTimeout i w) = app w"
  "isSpeaking (clearTimeout i w) = isSpeaking w"
  "utterances (clearTimeout i w) = utterances w"
  "currentSpeechResolve (clearTimeout i w) = currentSpeechResolve w"
  "hasSynthesis (clearTimeout i w) = hasSynthesis w"
  "isPaused (clearTimeout i w) = isPaused w"
  by (simp_all add: clearTimeout_def speech_simps)

lemma cancelPendingRestart_speech [speech_simps]:
  "app (cancelPendingRestart w) = app w"
  "isSpeaking (cancelPendingRestart w) = isSpeaking w"
  "utterances (cancelPendingRestart w) = utterances w"
  "currentSpeechResolve (cancelPendingRestart w) = currentSpeechResolve w"
  "hasSynthesis (cancelPendingRestart w) = hasSynthesis w"
  "isPaused (cancelPendingRestart w) = isPaused w"
  by (simp_all add: cancelPendingRestart_def speech_simps split: option.splits)

lemma scheduleRestart_speech [speech_simps]:
  "app (scheduleRestart ms w) = app w"
  "isSpeaking (scheduleRestart ms w) = isSpeaking w"
  "utterances (scheduleRestart ms w) = utterances w"
  "currentSpeechResolve (scheduleRestart ms w) = currentSpeechResolve w"
  "hasSynthesis (scheduleRestart ms w) = hasSynthesis w"
  "isPaused (scheduleRestart ms w) = isPaused w"
  by (simp_all add: scheduleRestart_def Let_def setTimeout_def speech_simps)

lemma startLocalDetection_speech [speech_simps]:
  "app (startLocalDetection env w) = app w"
  "isSpeaking (startLocalDetection env w) = isSpeaking w"
  "utterances (startLocalDetection env w) = utterances w"
  "currentSpeechResolve (startLocalDetection env w) = currentSpeechResolve w"
  "hasSynthesis (startLocalDetection env w) = hasSynthesis w"
  "isPaused (startLocalDetection env w) = isPaused w"
  by (simp_all add: startLocalDetection_def speech_simps)

lemma clearConversationTimeout_speech [speech_simps]:
  "app (clearConversationTimeout w) = app w"
  "isSpeaking (clearConversationTimeout w) = isSpeaking w"
  "utterances (clearConversationTimeout w) = utterances w"
  "currentSpeechResolve (clearConversationTimeout w) = currentSpeechResolve w"
  "hasSynthesis (clearConversationTimeout w) = hasSynthesis w"
  "isPaused (clearConversationTimeout w) = isPaused w"
  by (simp_all add: clearConversationTimeout_def speech_simps split: option.splits)

lemma startConversationTimeout_speech [speech_simps]:
  "app (startConversationTimeout w) = app w"
  "isSpeaking (startConversationTimeout w) = isSpeaking w"
  "utterances (startConversationTimeout w) = utterances w"
  "currentSpeechResolve (startConversationTimeout w) = currentSpeechResolve w"
  "hasSynthesis (startConversationTimeout w) = hasSynthesis w"
  "isPaused (startConversationTimeout w) = isPaused w"
  by (simp_all add: startConversationTimeout_def setTimeout_def speech_simps)

lemma startWebSpeechDetection_speech:
  "startWebSpeechDetection env w = Inr w' \<or> startWebSpeechDetection env w = Inl w' \<Longrightarrow>
   app w' = app w \<and> isSpeaking w' = isSpeaking w \<and> utterances w' = utterances w \<and>
   currentSpeechResolve w' = currentSpeechResolve w \<and> hasSynthesis w' = hasSynthesis w \<and>
   isPaused w' = isPaused w"
  by (auto simp add: startWebSpeechDetection_def Let_def split: if_splits start_result.splits)

lemma startWakeWordDetection_speech [speech_simps]:
  "app (startWakeWordDetection env w) = app w"
  "isSpeaking (startWakeWordDetection env w) = isSpeaking w"
  "utterances (startWakeWordDetection env w) = utterances w"
  "currentSpeechResolve (startWakeWordDetection env w) = currentSpeechResolve w"
  "hasSynthesis (startWakeWordDetection env w) = hasSynthesis w"
  "isPaused (startWakeWordDetection env w) = isPaused w"
proof -
  have "app (startWakeWordDetection env w) = app w \<and>
    isSpeaking (startWakeWordDetection env w) = isSpeaking w \<and>
    utterances (startWakeWordDetection env w) = utterances w \<and>
    currentSpeechResolve (startWakeWordDetection env w) = currentSpeechResolve w \<and>
    hasSynthesis (startWakeWordDetection env w) = hasSynthesis w \<and>
    isPaused (startWakeWordDetection env w) = isPaused w"
  proof (cases "startWebSpeechDetection env w")
    case (Inl w1)
    with startWebSpeechDetection_speech[of env w w1] show ?thesis
      by (simp add: startWakeWordDetection_def Let_def initLocalDetection_def speech_simps)
  next
    case (Inr w1)
    with startWebSpeechDetection_speech[of env w w1] show ?thesis
      by (simp add: startWakeWordDetection_def speech_simps)
  qed
  then show "app (startWakeWordDetection env w) = app w"
    "isSpeaking (startWakeWordDetection env w) = isSpeaking w"
    "utterances (startWakeWordDetection env w) = utterances w"
    "currentSpeechResolve (startWakeWordDetection env w) = currentSpeechResolve w"
    "hasSynthesis (startWakeWordDetection env w) = hasSynthesis w"
    "isPaused (startWakeWordDetection env w) = isPaused w"
    by simp_all
qed




lemma interruptSpeaking_alt:
  "interruptSpeaking w =
     delay InterruptResumeCb 300
       (appSetState ''listening'' [(''source'', VStr ''interrupt'')] (interrupted w))"
  by (simp add: interruptSpeaking_def interrupted_def Let_def)






















section \<open>The deadline of a backend request\<close>

text \<open>The request as \<open>processCommand\<close> leaves it: one timer, due after 15 s.\<close>

lemma processCommand_state:
  "processCommand command orig =
     \<lparr>rq_command = command, rq_clock = 0, rq_nextTimer = 2,
      rq_timers = [\<lparr>rt_id = 1, rt_due = 15000, rt_cb = InitialTimeoutCb\<rparr>],
      timeoutId = Some 1, isResolved = False, toolInProgress = False,
      handlersInstalled = True, originalToolStartHandler = orig,
      resolved = None, sentMessages = [command], lateResponses = [],
      originalToolStartCalls = [], passedOn = []\<rparr>"
  by (simp add: processCommand_def requestSetTimeout_def)

lemma advance_nothing_due:
  "\<forall>x \<in> set (rq_timers r). t < rt_due x \<Longrightarrow> advance t r = r\<lparr>rq_clock := max (rq_clock r) t\<rparr>"
proof -
  assume "\<forall>x \<in> set (rq_timers r). t < rt_due x"
  then have "filter (\<lambda>x. rt_due x \<le> t) (rq_timers r) = []"
    by (auto simp add: filter_empty_conv)
  then show ?thesis by (simp add: advance_def)
qed

text \<open>
  A tool start before the initial deadline: the 15 s timer is gone and the only timer
  pending is the 60 s one, counted from the arrival of the message.
\<close>

lemma tool_start_state:
  assumes "t1 < 15000"
  shows "deliver (ToolStart tool) (advance t1 (processCommand command orig)) =
     \<lparr>rq_command = command, rq_clock = t1, rq_nextTimer = 3,
      rq_timers = [\<lparr>rt_id = 2, rt_due = t1 + 60000, rt_cb = ToolTimeoutCb\<rparr>],
      timeoutId = Some 2, isResolved = False, toolInProgress = True,
      handlersInstalled = True, originalToolStartHandler = orig,
      resolved = None, sentMessages = [command], lateResponses = [],
      originalToolStartCalls = (if orig then [tool] else []), passedOn = []\<rparr>"
proof -
  have "advance t1 (processCommand command orig) = (processCommand command orig)\<lparr>rq_clock := t1\<rparr>"
    using assms advance_nothing_due[of "processCommand command orig" t1]
    by (simp add: processCommand_state)
  then show ?thesis
    by (simp add: processCommand_state deliver_def onToolStart_def truthy_def Let_def
          requestClearTimeout_def requestSetTimeout_def)
qed

lemma tool_start_waits:
  assumes "t1 < 15000" and "t < t1 + 60000"
  shows "advance t (deliver (ToolStart tool) (advance t1 (processCommand command orig))) =
     (deliver (ToolStart tool) (advance t1 (processCommand command orig)))\<lparr>rq_clock := max t1 t\<rparr>"
  using assms(2)
    advance_nothing_due[of "deliver (ToolStart tool) (advance t1 (processCommand command orig))" t]
  by (simp add: tool_start_state[OF assms(1)])

lemma tool_deadline_fallback:
  assumes "t1 < 15000" and "t1 + 60000 \<le> t"
  shows "resolved (advance t (deliver (ToolStart tool) (advance t1 (processCommand command orig))))
           = Some (getLocalResponse command)"
  unfolding tool_start_state[OF assms(1)] using assms(2)
  by (simp add: advance_def expire_def toolTimeoutFired_def
        resolve_def cleanup_def truthy_def requestClearTimeout_def Let_def)

lemma response_state:
  assumes "t1 < 15000" and "t2 < t1 + 60000"
  shows "deliver (TextResponse answer toolsUsed)
           (advance t2 (deliver (ToolStart tool) (advance t1 (processCommand command orig)))) =
     \<lparr>rq_command = command, rq_clock = max t1 t2, rq_nextTimer = 3, rq_timers = [],
      timeoutId = None, isResolved = True, toolInProgress = True,
      handlersInstalled = False, originalToolStartHandler = orig,
      resolved = Some (ApiResponse answer toolsUsed), sentMessages = [command],
      lateResponses = [],
      originalToolStartCalls = (if orig then [tool] else []), passedOn = []\<rparr>"
proof -
  have w: "advance t2 (deliver (ToolStart tool) (advance t1 (processCommand command orig))) =
     \<lparr>rq_command = command, rq_clock = max t1 t2, rq_nextTimer = 3,
      rq_timers = [\<lparr>rt_id = 2, rt_due = t1 + 60000, rt_cb = ToolTimeoutCb\<rparr>],
      timeoutId = Some 2, isResolved = False, toolInProgress = True,
      handlersInstalled = True, originalToolStartHandler = orig,
      resolved = None, sentMessages = [command], lateResponses = [],
      originalToolStartCalls = (if orig then [tool] else []), passedOn = []\<rparr>"
    unfolding tool_start_waits[OF assms] by (simp add: tool_start_state[OF assms(1)])
  show ?thesis unfolding w
    by (simp add: deliver_def onResponse_def resolve_def cleanup_def truthy_def
          requestClearTimeout_def Let_def)
qed

text \<open>
  Claim C4. A tool-start message arrives \<open>t1\<close> ms after the request was sent, before the
  15 s deadline. The 15 s timer is cancelled and the one timer pending is the 60 s
  deadline, due at \<open>t1 + 60000\<close>. Until then nothing resolves the promise; in particular the
  moment of the initial deadline passes without the local response, and the callback of
  the initial timer itself resolves nothing once a tool is in progress. A backend response
  that arrives before \<open>t1 + 60000\<close> resolves the promise with the response of the backend,
  no timer is left, and no later moment changes the value to the local response. When no
  response has arrived by \<open>t1 + 60000\<close>, the promise is resolved with the local response.
\<close>

theorem tool_start_extends_deadline:
  assumes "t1 < 15000"
  shows "rq_timers (run_request [(t1, ToolStart tool)] (processCommand command orig))
           = [\<lparr>rt_id = 2, rt_due = t1 + 60000, rt_cb = ToolTimeoutCb\<rparr>] \<and>
     resolved (run_request [(t1, ToolStart tool)] (processCommand command orig)) = None \<and>
     (t < t1 + 60000 \<longrightarrow>
        resolved (advance t (run_request [(t1, ToolStart tool)] (processCommand command orig)))
          = None) \<and>
     (toolInProgress r \<longrightarrow> initialTimeoutFired r = r) \<and>
     (t2 < t1 + 60000 \<longrightarrow>
        resolved (run_request [(t1, ToolStart tool), (t2, TextResponse answer toolsUsed)]
                   (processCommand command orig))
          = Some (ApiResponse answer toolsUsed) \<and>
        rq_timers (run_request [(t1, ToolStart tool), (t2, TextResponse answer toolsUsed)]
                   (processCommand command orig)) = [] \<and>
        resolved (advance t3
                   (run_request [(t1, ToolStart tool), (t2, TextResponse answer toolsUsed)]
                     (processCommand command orig)))
          = Some (ApiResponse answer toolsUsed)) \<and>
     (t1 + 60000 \<le> t4 \<longrightarrow>
        resolved (advance t4 (run_request [(t1, ToolStart tool)] (processCommand command orig)))
          = Some (getLocalResponse command))"
proof -
  let ?r1 = "deliver (ToolStart tool) (advance t1 (processCommand command orig))"
  let ?r2 = "deliver (TextResponse answer toolsUsed) (advance t2 ?r1)"
  have a: "rq_timers ?r1 = [\<lparr>rt_id = 2, rt_due = t1 + 60000, rt_cb = ToolTimeoutCb\<rparr>]"
    and b: "resolved ?r1 = None"
    by (simp_all add: tool_start_state[OF assms])
  have c: "t < t1 + 60000 \<longrightarrow> resolved (advance t ?r1) = None"
    using tool_start_waits[OF assms, of t tool command orig] b by simp
  have d: "toolInProgress r \<longrightarrow> initialTimeoutFired r = r"
    by (simp add: initialTimeoutFired_def)
  have e: "t2 < t1 + 60000 \<longrightarrow>
        resolved ?r2 = Some (ApiResponse answer toolsUsed) \<and> rq_timers ?r2 = [] \<and>
        resolved (advance t3 ?r2) = Some (ApiResponse answer toolsUsed)"
  proof
    assume t2: "t2 < t1 + 60000"
    have "advance t3 ?r2 = ?r2\<lparr>rq_clock := max (rq_clock ?r2) t3\<rparr>"
      by (rule advance_nothing_due) (simp add: response_state[OF assms t2])
    then show "resolved ?r2 = Some (ApiResponse answer toolsUsed) \<and> rq_timers ?r2 = [] \<and>
        resolved (advance t3 ?r2) = Some (ApiResponse answer toolsUsed)"
      by (simp add: response_state[OF assms t2])
  qed
  have f: "t1 + 60000 \<le> t4 \<longrightarrow> resolved (advance t4 ?r1) = Some (getLocalResponse command)"
    using tool_deadline_fallback[OF assms] by blast
  from a b c d e f show ?thesis unfolding run_request.simps by (intro conjI)
qed

text \<open>
  The tool start arrives after 10 s and the response after 40 s: the response is the result
  of the command. At 15 s nothing has been resolved, and without the response the local
  response is the result at 70 s.
\<close>

theorem tool_start_extends_deadline_witness:
  "rq_timers (run_request [(10000, ToolStart ''lights'')]
      (processCommand ''turn on the lights'' False))
     = [\<lparr>rt_id = 2, rt_due = 70000, rt_cb = ToolTimeoutCb\<rparr>] \<and>
   resolved (advance 15000
      (run_request [(10000, ToolStart ''lights'')]
        (processCommand ''turn on the lights'' False)))
     = None \<and>
   initialTimeoutFired
      (run_request [(10000, ToolStart ''lights'')]
        (processCommand ''turn on the lights'' False))
     = run_request [(10000, ToolStart ''lights'')]
        (processCommand ''turn on the lights'' False) \<and>
   resolved (run_request
      [(10000, ToolStart ''lights''), (40000, TextResponse ''Done.'' [''lights''])]
      (processCommand ''turn on the lights'' False))
     = Some (ApiResponse ''Done.'' [''lights'']) \<and>
   resolved (advance 70000
      (run_request [(10000, ToolStart ''lights'')]
        (processCommand ''turn on the lights'' False)))
     = Some (getLocalResponse ''turn on the lights'')"
proof -
  let ?r1 = "run_request [(10000, ToolStart ''lights'')]
               (processCommand ''turn on the lights'' False)"
  have 1: "(10000::nat) < 15000" and 2: "(15000::nat) < 10000 + 60000"
    and 3: "(40000::nat) < 10000 + 60000" and 4: "(10000::nat) + 60000 \<le> 70000"
    by simp_all
  have p: "toolInProgress ?r1"
    unfolding run_request.simps by (simp add: tool_start_state[OF 1])
  note th = tool_start_extends_deadline
    [OF 1, where t = 15000 and r = ?r1 and ?t2.0 = 40000 and ?t4.0 = 70000
       and tool = "''lights''" and command = "''turn on the lights''" and orig = False
       and answer = "''Done.''" and toolsUsed = "[''lights'']" and ?t3.0 = 0]
  from th 2 3 4 p show ?thesis by simp
qed

section \<open>The wake phrase alone while Listening\<close>

lemma wake_word_alone:
  assumes "p \<in> set allWakeWords"
  shows "detectWakeWord p" and "extractCommandFromTranscript p = []" and "p \<noteq> []"
proof -
  have a: "detectWakeWord ''hey luna'' \<and> detectWakeWord ''luna'' \<and> detectWakeWord ''ok luna''
     \<and> detectWakeWord ''luda'' \<and> detectWakeWord ''hey luda'' \<and> detectWakeWord ''ok luda''"
    by code_simp
  have b: "extractCommandFromTranscript ''hey luna'' = [] \<and>
     extractCommandFromTranscript ''luna'' = [] \<and> extractCommandFromTranscript ''ok luna'' = [] \<and>
     extractCommandFromTranscript ''luda'' = [] \<and> extractCommandFromTranscript ''hey luda'' = [] \<and>
     extractCommandFromTranscript ''ok luda'' = []"
    by code_simp
  from wake_cases[OF assms] a show "detectWakeWord p" by (elim disjE) simp_all
  from wake_cases[OF assms] b show "extractCommandFromTranscript p = []" by (elim disjE) simp_all
  from wake_cases[OF assms] show "p \<noteq> []" by (elim disjE) simp_all
qed

lemma clearConversationTimeout_idem:
  "clearConversationTimeout (clearConversationTimeout w) = clearConversationTimeout w"
  by (simp add: clearConversationTimeout_def clearTimeout_def split: option.splits)

lemma handle_wake_word_alone:
  assumes "currentState (app w) = ''listening''" and "\<not> isSpeaking w"
    and "trim (toLowerCase transcript) \<in> set allWakeWords"
  shows "handleRecognitionResult transcript confidence True w =
     (if isInConversation w
      then startConversationTimeout (clearConversationTimeout (w\<lparr>consecutiveErrors := 0\<rparr>))
      else clearConversationTimeout (w\<lparr>consecutiveErrors := 0\<rparr>))
       \<lparr>lastCommand := trim (toLowerCase transcript)\<rparr>"
proof -
  have i: "isInConversation (clearConversationTimeout (w\<lparr>consecutiveErrors := 0\<rparr>))
             = isInConversation w"
    by (simp add: clearConversationTimeout_def clearTimeout_def split: option.splits)
  show ?thesis
    using assms(1,2) wake_word_alone[OF assms(3)] i
    by (simp add: handleRecognitionResult_def Let_def getCurrentState_def)
qed

text \<open>
  While the \<open>isSpeaking\<close> flag is set a final transcript is handled as an interruption
  of the speech, whatever the state: the wake phrase alone interrupts and dispatches
  nothing.
\<close>

lemma resolveSpeech_dispatched:
  "dispatched (snd (resolveSpeech uid w)) = dispatched w"
  "awaitingBackend (snd (resolveSpeech uid w)) = awaitingBackend w"
  by (simp_all add: resolveSpeech_def split: list.splits)

lemma appSetState_dispatched:
  "dispatched (appSetState st ctx w) = dispatched w"
  "awaitingBackend (appSetState st ctx w) = awaitingBackend w"
  by (simp_all add: appSetState_def Let_def onStateChange_def delay_def setTimeout_def
        scheduleRestart_def cancelPendingRestart_def clearTimeout_def split_beta
      split: option.splits)

lemma interrupted_dispatched:
  "dispatched (interrupted w) = dispatched w"
  "awaitingBackend (interrupted w) = awaitingBackend w"
  by (simp_all add: interrupted_def Let_def split_beta synthesisCancel_def
        resolveSpeech_dispatched split: option.splits)

lemma interruptSpeaking_dispatched:
  "dispatched (interruptSpeaking w) = dispatched w"
  "awaitingBackend (interruptSpeaking w) = awaitingBackend w"
  by (simp_all add: interruptSpeaking_alt delay_def setTimeout_def appSetState_dispatched
        interrupted_dispatched)

lemma startWakeWordDetection_clock:
  "clock (startWakeWordDetection env w) = clock w"
  by (simp add: startWakeWordDetection_def startWebSpeechDetection_def startLocalDetection_def
        initLocalDetection_def scheduleRestart_def cancelPendingRestart_def clearTimeout_def
        setTimeout_def Let_def split_beta
      split: start_result.splits option.splits)

lemma interruptResumed_rearms:
  "\<exists>i. conversationTimeout (interruptResumed env v) = Some i \<and>
       last (timers (interruptResumed env v))
         = \<lparr>t_id = i, t_due = clock v + 15000, t_cb = ConversationTimeoutCb\<rparr>"
proof -
  let ?w3 = "if \<not> useLocalDetection v
     then startWakeWordDetection env
            ((cancelPendingRestart v)\<lparr>isListening := False, isRestarting := False,
               isPaused := False\<rparr>)
     else (cancelPendingRestart v)\<lparr>isListening := False, isRestarting := False,
               isPaused := False\<rparr>"
  have u: "useLocalDetection (cancelPendingRestart v) = useLocalDetection v"
    by (simp add: cancelPendingRestart_def clearTimeout_def split: option.splits)
  have c: "clock ?w3 = clock v"
    by (simp add: startWakeWordDetection_clock cancelPendingRestart_def clearTimeout_def
          split: option.splits)
  have "interruptResumed env v = startConversationTimeout ?w3"
    by (simp add: interruptResumed_def Let_def u)
  moreover have "clock (clearConversationTimeout ?w3) = clock ?w3"
    by (simp add: clearConversationTimeout_def clearTimeout_def split: option.splits)
  ultimately show ?thesis using c
    by (simp add: startConversationTimeout_def setTimeout_def split_beta)
qed

lemma handle_wake_word_speaking:
  assumes "isSpeaking w" and "trim (toLowerCase transcript) \<in> set allWakeWords"
  shows "handleRecognitionResult transcript confidence True w =
     delay (EnterListeningCb ''interruption'') 300 (interruptSpeaking w)"
  using assms(1) wake_word_alone[OF assms(2)]
  by (simp add: handleRecognitionResult_def Let_def)

text \<open>
  Claim C8. A final transcript that is exactly a wake phrase (after lower-casing and
  trimming), handled in the Listening state: no command is dispatched or left waiting for
  the backend. With the \<open>isSpeaking\<close> flag clear the state does not change and the
  conversation timeout is reset: the timer whose handle was stored is no longer pending,
  and when the session is in conversation a new one is armed, due 15 s from now; outside a
  conversation none is armed. With the \<open>isSpeaking\<close> flag set the transcript interrupts the
  speech, and the continuation of \<open>interruptSpeaking\<close> arms the conversation timeout anew,
  due 15 s from the moment it runs.
\<close>

theorem wake_phrase_alone_in_listening:
  assumes reach: "w = run es (newSession supported synth sm)"
    and st: "currentState (app w) = ''listening''"
    and tr: "trim (toLowerCase transcript) \<in> set allWakeWords"
  shows "dispatched (handleRecognitionResult transcript confidence True w) = dispatched w \<and>
     awaitingBackend (handleRecognitionResult transcript confidence True w) = awaitingBackend w \<and>
     (\<not> isSpeaking w \<longrightarrow>
        app (handleRecognitionResult transcript confidence True w) = app w \<and>
        (\<forall>i. conversationTimeout w = Some i \<longrightarrow>
           i \<notin> set (map t_id (timers (handleRecognitionResult transcript confidence True w)))) \<and>
        (isInConversation w \<longrightarrow>
           conversationTimeout (handleRecognitionResult transcript confidence True w)
             = Some (nextTimer w) \<and>
           timers (handleRecognitionResult transcript confidence True w)
             = timers (clearConversationTimeout w) @
               [\<lparr>t_id = nextTimer w, t_due = clock w + 15000, t_cb = ConversationTimeoutCb\<rparr>]) \<and>
        (\<not> isInConversation w \<longrightarrow>
           conversationTimeout (handleRecognitionResult transcript confidence True w) = None \<and>
           timers (handleRecognitionResult transcript confidence True w)
             = timers (clearConversationTimeout w))) \<and>
     (isSpeaking w \<longrightarrow>
        handleRecognitionResult transcript confidence True w
          = delay (EnterListeningCb ''interruption'') 300 (interruptSpeaking w)) \<and>
     (\<exists>i. conversationTimeout (interruptResumed env v) = Some i \<and>
          last (timers (interruptResumed env v))
            = \<lparr>t_id = i, t_due = clock v + 15000, t_cb = ConversationTimeoutCb\<rparr>)"
proof (cases "isSpeaking w")
  case True
  let ?h = "handleRecognitionResult transcript confidence True w"
  have eq: "?h = delay (EnterListeningCb ''interruption'') 300 (interruptSpeaking w)"
    using True tr by (rule handle_wake_word_speaking)
  have 1: "dispatched ?h = dispatched w" and 2: "awaitingBackend ?h = awaitingBackend w"
    unfolding eq by (simp_all add: delay_def setTimeout_def interruptSpeaking_dispatched)
  from 1 2 eq True interruptResumed_rearms[of env v] show ?thesis by simp
next
  case sp: False
  let ?h = "handleRecognitionResult transcript confidence True w"
  have inv: "restart_inv w" unfolding reach by (rule run_inv) (rule newSession_inv)
  then have hc: "handle_for ConversationTimeoutCb (conversationTimeout w) (timers w) (nextTimer w)"
    by (simp add: restart_inv_def handles_ok_def)
  note eq = handle_wake_word_alone[OF st sp tr, of confidence]
  have cl: "timers (clearConversationTimeout (w\<lparr>consecutiveErrors := 0\<rparr>))
              = timers (clearConversationTimeout w)"
    "nextTimer (clearConversationTimeout (w\<lparr>consecutiveErrors := 0\<rparr>)) = nextTimer w"
    "clock (clearConversationTimeout (w\<lparr>consecutiveErrors := 0\<rparr>)) = clock w"
    "conversationTimeout (clearConversationTimeout (w\<lparr>consecutiveErrors := 0\<rparr>)) = None"
    using hc
    by (auto simp add: clearConversationTimeout_def clearTimeout_def handle_for_def
          split: option.splits)
  have gone: "i \<notin> set (map t_id (timers (clearConversationTimeout w)))" "i < nextTimer w"
    if "conversationTimeout w = Some i" for i
    using that hc
    by (auto simp add: clearConversationTimeout_def clearTimeout_def handle_for_def)
  have 1: "dispatched ?h = dispatched w"
    unfolding eq
    by (simp add: startConversationTimeout_def setTimeout_def clearConversationTimeout_def
          clearTimeout_def split: option.splits)
  have 2: "awaitingBackend ?h = awaitingBackend w"
    unfolding eq
    by (simp add: startConversationTimeout_def setTimeout_def clearConversationTimeout_def
          clearTimeout_def split: option.splits)
  have 3: "app ?h = app w"
    unfolding eq
    by (simp add: startConversationTimeout_def setTimeout_def clearConversationTimeout_def
          clearTimeout_def split: option.splits)
  have 5: "conversationTimeout ?h = Some (nextTimer w) \<and>
        timers ?h = timers (clearConversationTimeout w) @
            [\<lparr>t_id = nextTimer w, t_due = clock w + 15000, t_cb = ConversationTimeoutCb\<rparr>]"
    if "isInConversation w"
    unfolding eq using that cl
    by (simp add: startConversationTimeout_def setTimeout_def clearConversationTimeout_idem)
  have 6: "conversationTimeout ?h = None \<and> timers ?h = timers (clearConversationTimeout w)"
    if "\<not> isInConversation w"
    unfolding eq using that cl by simp
  have 4: "i \<notin> set (map t_id (timers ?h))" if c: "conversationTimeout w = Some i" for i
  proof (cases "isInConversation w")
    case True
    from 5[OF True] gone[OF c] show ?thesis by auto
  next
    case False
    from 6[OF False] gone(1)[OF c] show ?thesis by simp
  qed
  have 7: "\<exists>i. conversationTimeout (interruptResumed env v) = Some i \<and>
          last (timers (interruptResumed env v))
            = \<lparr>t_id = i, t_due = clock v + 15000, t_cb = ConversationTimeoutCb\<rparr>"
    by (rule interruptResumed_rearms)
  from 1 2 3 4 5 6 7 sp show ?thesis by blast
qed

text \<open>
  In the conversation that follows the first answer the user says \<open>Hey Luna\<close>: nothing is
  dispatched, and the conversation timer 4 is replaced by timer 5, due 15 s later. When a
  late response of the backend is being spoken in that conversation, the same words
  interrupt the speech.
\<close>

theorem wake_phrase_alone_in_listening_witness:
  "dispatched (handleRecognitionResult ''Hey Luna'' 70 True conversation_session)
     = dispatched conversation_session \<and>
   conversationTimeout conversation_session = Some 4 \<and>
   conversationTimeout (handleRecognitionResult ''Hey Luna'' 70 True conversation_session)
     = Some 5 \<and>
   timers (handleRecognitionResult ''Hey Luna'' 70 True conversation_session)
     = [\<lparr>t_id = 5, t_due = 15800, t_cb = ConversationTimeoutCb\<rparr>] \<and>
   isSpeaking (run [LateResponse ''One more thing''] conversation_session) \<and>
   handleRecognitionResult ''Hey Luna'' 70 True
       (run [LateResponse ''One more thing''] conversation_session)
     = delay (EnterListeningCb ''interruption'') 300
         (interruptSpeaking (run [LateResponse ''One more thing''] conversation_session))"
proof -
  let ?es = "[CallStartWakeWordDetection env_ok, RecStart,
           RecResult ''Hey Luna what time is it'' 80 True, TimerFired 1 env_ok] @
          [CommandResolved 0 ''It is noon''] @
          [UtteranceDone 1, TimerFired 2 env_ok, TimerFired 3 env_ok]"
  let ?late = "run [LateResponse ''One more thing''] conversation_session"
  have r: "conversation_session = run ?es (newSession True True (newStateManager [] []))"
    by (simp add: conversation_session_def speaking_session_def thinking_session_def
          fresh_session_def)
  have r': "?late = run (?es @ [LateResponse ''One more thing''])
                      (newSession True True (newStateManager [] []))"
    by (simp add: conversation_session_def speaking_session_def thinking_session_def
          fresh_session_def)
  have "let s = conversation_session in
          currentState (app s) = ''listening'' \<and> \<not> isSpeaking s \<and> isInConversation s \<and>
          conversationTimeout s = Some 4 \<and> nextTimer s = 5 \<and> clock s = 800 \<and>
          timers (clearConversationTimeout s) = []"
    by code_simp
  then have e: "currentState (app conversation_session) = ''listening''"
    "\<not> isSpeaking conversation_session" "isInConversation conversation_session"
    and v: "conversationTimeout conversation_session = Some 4"
    "nextTimer conversation_session = 5" "clock conversation_session = 800"
    "timers (clearConversationTimeout conversation_session) = []"
    unfolding Let_def by simp_all
  have "let s = run [LateResponse ''One more thing''] conversation_session in
          currentState (app s) = ''listening'' \<and> isSpeaking s"
    by code_simp
  then have l: "currentState (app ?late) = ''listening''" "isSpeaking ?late"
    unfolding Let_def by simp_all
  have t: "trim (toLowerCase ''Hey Luna'') \<in> set allWakeWords" by code_simp
  note th = wake_phrase_alone_in_listening[OF r e(1) t, of 70 env_ok conversation_session]
  note th' = wake_phrase_alone_in_listening[OF r' l(1) t, of 70 env_ok conversation_session]
  have 1: "dispatched (handleRecognitionResult ''Hey Luna'' 70 True conversation_session)
     = dispatched conversation_session"
    using th by (rule conjunct1)
  from th[THEN conjunct2, THEN conjunct2, THEN conjunct1] e(2)
  have "isInConversation conversation_session \<longrightarrow>
        conversationTimeout (handleRecognitionResult ''Hey Luna'' 70 True conversation_session)
          = Some (nextTimer conversation_session) \<and>
        timers (handleRecognitionResult ''Hey Luna'' 70 True conversation_session)
          = timers (clearConversationTimeout conversation_session) @
            [\<lparr>t_id = nextTimer conversation_session, t_due = clock conversation_session + 15000,
              t_cb = ConversationTimeoutCb\<rparr>]"
    by blast
  with e(3) have 2: "conversationTimeout (handleRecognitionResult ''Hey Luna'' 70 True conversation_session)
          = Some 5 \<and>
        timers (handleRecognitionResult ''Hey Luna'' 70 True conversation_session)
          = [\<lparr>t_id = 5, t_due = 15800, t_cb = ConversationTimeoutCb\<rparr>]"
    unfolding v by simp
  from th'[THEN conjunct2, THEN conjunct2, THEN conjunct2, THEN conjunct1] l(2)
  have 3: "handleRecognitionResult ''Hey Luna'' 70 True ?late
     = delay (EnterListeningCb ''interruption'') 300 (interruptSpeaking ?late)"
    by (rule mp)
  from 1 v(1) 2 l(2) 3 show ?thesis by (intro conjI) simp_all
qed

end
